theory Spec2Isabelle
  imports Main "HOL-Library.Word"
begin

section \<open>flag.h: the data model\<close>

text \<open>
  The enums \<^verbatim>\<open>Flag_Type\<close> and \<^verbatim>\<open>Flag_Error\<close> are datatypes with the
  enumerators' names. The union \<^verbatim>\<open>Flag_Value\<close> is a datatype with one constructor
  per member; the code reads and writes the member selected by the flag's \<^verbatim>\<open>type\<close>.
  A \<^verbatim>\<open>char *\<close> that may be \<^verbatim>\<open>NULL\<close> (a string default, the error name of the
  zero-initialised context) is a \<open>string option\<close>. A C string is a \<open>string\<close>; it holds
  no NUL character, so \<^verbatim>\<open>strcmp(a, b) == 0\<close> is \<open>a = b\<close>.
\<close>

datatype Flag_Type = FLAG_BOOL | FLAG_UINT64 | FLAG_STR

datatype Flag_Value = As_str "string option" | As_uint64 "64 word" | As_bool bool

datatype Flag_Error =
    FLAG_NO_ERROR
  | FLAG_ERROR_UNKNOWN
  | FLAG_ERROR_NO_VALUE
  | FLAG_ERROR_INVALID_NUMBER
  | FLAG_ERROR_INTEGER_OVERFLOW

record Flag =
  type :: Flag_Type
  name :: string
  desc :: string
  val :: Flag_Value
  def :: Flag_Value

text \<open>
  \<^verbatim>\<open>Flag_Context\<close>: the array \<^verbatim>\<open>flags[FLAGS_CAP]\<close> with its \<^verbatim>\<open>flags_count\<close> is the
  list of the entries in use (\<^verbatim>\<open>flags_count\<close> is its length). \<^verbatim>\<open>rest_argv\<close> points
  into the argument vector; it is the list of the \<^verbatim>\<open>rest_argc\<close> strings it points at.
\<close>

record Flag_Context =
  flags :: "Flag list"
  flag_error :: Flag_Error
  flag_error_name :: "string option"
  rest_argc :: int
  rest_argv :: "string list"

text \<open>
  The globals the library reads and writes: \<^verbatim>\<open>flag_global_context\<close> and the C
  library's \<^verbatim>\<open>errno\<close>, which \<^verbatim>\<open>flag_parse\<close> compares with \<^verbatim>\<open>ERANGE\<close>.
\<close>

record globals = Flag_Context +
  errno :: int

definition FLAGS_CAP :: nat where
  "FLAGS_CAP = 256"

definition ERANGE :: int where
  "ERANGE = 34"

definition ULLONG_MAX :: nat where
  "ULLONG_MAX = 2 ^ 64 - 1"

section \<open>The C library's strtoull\<close>

text \<open>
  \<^verbatim>\<open>strtoull(nptr, &endptr, 10)\<close> is the C library's, as ISO C (7.22.1.4) specifies it
  in the C locale: it skips leading white space (\<^verbatim>\<open>isspace\<close>), takes an optional sign
  and then the longest run of decimal digits. With no digit there, no conversion is
  performed: the result is 0 and \<^verbatim>\<open>endptr\<close> is \<^verbatim>\<open>nptr\<close>. A value beyond
  \<^verbatim>\<open>ULLONG_MAX\<close> gives \<^verbatim>\<open>ULLONG_MAX\<close> and sets \<^verbatim>\<open>errno\<close> to \<^verbatim>\<open>ERANGE\<close>;
  otherwise \<^verbatim>\<open>errno\<close> is left as it was, and after a minus sign the value is negated
  in the unsigned type. The model returns the result, the offset of \<^verbatim>\<open>endptr\<close> from
  \<^verbatim>\<open>nptr\<close>, and the new \<^verbatim>\<open>errno\<close>.
\<close>

definition isspace :: "char \<Rightarrow> bool" where
  "isspace ch = (ch \<in> set [CHR '' '', CHR 0x09, CHR 0x0A, CHR 0x0B, CHR 0x0C, CHR 0x0D])"

definition isdigit :: "char \<Rightarrow> bool" where
  "isdigit ch = ((48::nat) \<le> of_char ch \<and> of_char ch \<le> (57::nat))"

definition digit_val :: "char \<Rightarrow> nat" where
  "digit_val ch = of_char ch - 48"

fun decimal :: "nat \<Rightarrow> string \<Rightarrow> nat" where
  "decimal acc [] = acc"
| "decimal acc (ch # cs) = decimal (10 * acc + digit_val ch) cs"

definition strtoull :: "string \<Rightarrow> int \<Rightarrow> 64 word \<times> nat \<times> int" where
  "strtoull nptr e =
     (let s1 = dropWhile isspace nptr;
          neg = (case s1 of [] \<Rightarrow> False | ch # _ \<Rightarrow> ch = CHR ''-'');
          s2 = (case s1 of [] \<Rightarrow> []
                | ch # cs \<Rightarrow> if ch = CHR ''-'' \<or> ch = CHR ''+'' then cs else s1);
          ds = takeWhile isdigit s2;
          endptr = length nptr - length (dropWhile isdigit s2)
      in if ds = [] then (0, 0, e)
         else if ULLONG_MAX < decimal 0 ds then (word_of_nat ULLONG_MAX, endptr, ERANGE)
         else if neg then (- word_of_nat (decimal 0 ds), endptr, e)
         else (word_of_nat (decimal 0 ds), endptr, e))"

section \<open>The registry\<close>

text \<open>
  \<^verbatim>\<open>flag_new\<close> asserts that the registry has room; a failed assertion aborts the
  process, which is \<open>None\<close>. The new entry is zeroed by \<^verbatim>\<open>memset\<close>: \<open>zero_value\<close>
  is the zeroed union read at the entry's type. The declaration functions return a
  pointer to the entry's \<^verbatim>\<open>val\<close>; the model returns the entry's index.
\<close>

definition zero_value :: "Flag_Type \<Rightarrow> Flag_Value" where
  "zero_value t = (case t of FLAG_BOOL \<Rightarrow> As_bool False | FLAG_UINT64 \<Rightarrow> As_uint64 0
                   | FLAG_STR \<Rightarrow> As_str None)"

definition set_val :: "nat \<Rightarrow> Flag_Value \<Rightarrow> globals \<Rightarrow> globals" where
  "set_val i v c = c\<lparr>flags := (flags c)[i := (flags c ! i)\<lparr>val := v\<rparr>]\<rparr>"

definition set_def :: "nat \<Rightarrow> Flag_Value \<Rightarrow> globals \<Rightarrow> globals" where
  "set_def i v c = c\<lparr>flags := (flags c)[i := (flags c ! i)\<lparr>def := v\<rparr>]\<rparr>"

definition flag_new :: "Flag_Type \<Rightarrow> string \<Rightarrow> string \<Rightarrow> globals \<Rightarrow> (nat \<times> globals) option" where
  "flag_new t nm d c =
     (if length (flags c) < FLAGS_CAP
      then Some (length (flags c),
                 c\<lparr>flags := flags c @
                   [\<lparr>type = t, name = nm, desc = d, val = zero_value t, def = zero_value t\<rparr>]\<rparr>)
      else None)"

definition flag_name :: "nat \<Rightarrow> globals \<Rightarrow> string" where
  "flag_name i c = name (flags c ! i)"

definition flag_bool :: "string \<Rightarrow> bool \<Rightarrow> string \<Rightarrow> globals \<Rightarrow> (nat \<times> globals) option" where
  "flag_bool nm d ds c =
     (case flag_new FLAG_BOOL nm ds c of
        None \<Rightarrow> None
      | Some (i, c') \<Rightarrow> Some (i, set_val i (As_bool d) (set_def i (As_bool d) c')))"

definition flag_uint64 :: "string \<Rightarrow> 64 word \<Rightarrow> string \<Rightarrow> globals \<Rightarrow> (nat \<times> globals) option" where
  "flag_uint64 nm d ds c =
     (case flag_new FLAG_UINT64 nm ds c of
        None \<Rightarrow> None
      | Some (i, c') \<Rightarrow> Some (i, set_def i (As_uint64 d) (set_val i (As_uint64 d) c')))"

definition flag_str :: "string \<Rightarrow> string option \<Rightarrow> string \<Rightarrow> globals \<Rightarrow> (nat \<times> globals) option" where
  "flag_str nm d ds c =
     (case flag_new FLAG_STR nm ds c of
        None \<Rightarrow> None
      | Some (i, c') \<Rightarrow> Some (i, set_def i (As_str d) (set_val i (As_str d) c')))"

definition flag_rest_argc :: "globals \<Rightarrow> int" where
  "flag_rest_argc c = rest_argc c"

definition flag_rest_argv :: "globals \<Rightarrow> string list" where
  "flag_rest_argv c = rest_argv c"

section \<open>flag_parse\<close>

text \<open>
  The argument vector is the list of its \<^verbatim>\<open>argc\<close> strings. \<^verbatim>\<open>flag_shift_args\<close>
  asserts \<^verbatim>\<open>argc > 0\<close> and takes the first string off; a failed assertion aborts
  the process (\<open>None\<close>).
\<close>

fun flag_shift_args :: "string list \<Rightarrow> (string \<times> string list) option" where
  "flag_shift_args [] = None"
| "flag_shift_args (arg # argv) = Some (arg, argv)"

text \<open>
  The \<^verbatim>\<open>for\<close> loop over the registry is \<open>flag_scan\<close>, on the index \<^verbatim>\<open>i\<close>: it
  carries the globals, the arguments left and \<^verbatim>\<open>found\<close>, and ends either in a
  \<^verbatim>\<open>return false\<close> from inside the loop (\<open>Failed\<close>) or at
  \<^verbatim>\<open>i == flags_count\<close> (\<open>Scanned\<close>). The loop has no \<^verbatim>\<open>break\<close>: after a match
  it goes on to the next entry. Where the code checks \<^verbatim>\<open>argc == 0\<close> and then shifts,
  the model takes the argument list apart. The \<^verbatim>\<open>default\<close> branch of the
  \<^verbatim>\<open>switch\<close> cannot be reached: a \<open>Flag_Type\<close> is one of the three enumerators.
\<close>

datatype scan_result = Failed globals | Scanned globals "string list" bool

function flag_scan :: "string \<Rightarrow> nat \<Rightarrow> globals \<Rightarrow> string list \<Rightarrow> bool \<Rightarrow> scan_result" where
  "flag_scan flag i c args found =
     (if i < length (flags c) then
        if name (flags c ! i) = flag then
          (case type (flags c ! i) of
             FLAG_BOOL \<Rightarrow> flag_scan flag (Suc i) (set_val i (As_bool True) c) args True
           | FLAG_STR \<Rightarrow>
               (case args of
                  [] \<Rightarrow> Failed (c\<lparr>flag_error := FLAG_ERROR_NO_VALUE, flag_error_name := Some flag\<rparr>)
                | arg # args' \<Rightarrow> flag_scan flag (Suc i) (set_val i (As_str (Some arg)) c) args' True)
           | FLAG_UINT64 \<Rightarrow>
               (case args of
                  [] \<Rightarrow> Failed (c\<lparr>flag_error := FLAG_ERROR_NO_VALUE, flag_error_name := Some flag\<rparr>)
                | arg # args' \<Rightarrow>
                    (case strtoull arg (errno c) of
                       (result, endptr, e) \<Rightarrow>
                         if endptr = 0 \<or> endptr < length arg then
                           Failed (c\<lparr>flag_error := FLAG_ERROR_INVALID_NUMBER,
                                     flag_error_name := Some flag, errno := e\<rparr>)
                         else if unat result = ULLONG_MAX \<and> e = ERANGE then
                           Failed (c\<lparr>flag_error := FLAG_ERROR_INTEGER_OVERFLOW,
                                     flag_error_name := Some flag, errno := e\<rparr>)
                         else flag_scan flag (Suc i)
                                (set_val i (As_uint64 result) (c\<lparr>errno := e\<rparr>)) args' True)))
        else flag_scan flag (Suc i) c args found
      else Scanned c args found)"
  by pat_completeness auto
termination
  by (relation "measure (\<lambda>(flag, i, c, args, found). length (flags c) - i)")
     (auto simp: set_val_def)

declare flag_scan.simps [simp del]

lemma flag_scan_length:
  "flag_scan flag i c args found = Scanned c' args' found' \<Longrightarrow> length args' \<le> length args"
proof (induction flag i c args found rule: flag_scan.induct)
  case (1 flag i c args found)
  show ?case
  proof (cases "i < length (flags c)")
    case False
    with "1.prems" show ?thesis by (simp add: flag_scan.simps)
  next
    case True
    show ?thesis
    proof (cases "name (flags c ! i) = flag")
      case False
      with True "1.prems" "1.IH"(4) show ?thesis by (simp add: flag_scan.simps [of flag i])
    next
      case m: True
      show ?thesis
      proof (cases "type (flags c ! i)")
        case FLAG_BOOL
        with True m "1.prems" "1.IH"(1) show ?thesis by (simp add: flag_scan.simps [of flag i])
      next
        case FLAG_STR
        with True m "1.prems" "1.IH"(3) show ?thesis
          by (cases args) (auto simp: flag_scan.simps [of flag i] le_Suc_eq)
      next
        case FLAG_UINT64
        with True m "1.prems" "1.IH"(2) show ?thesis
          by (cases args)
             (auto simp: flag_scan.simps [of flag i] le_Suc_eq split: prod.splits if_splits)
      qed
    qed
  qed
qed

text \<open>
  The \<^verbatim>\<open>while\<close> loop of \<^verbatim>\<open>flag_parse\<close>, on the arguments left. It returns the
  boolean \<^verbatim>\<open>flag_parse\<close> returns and the globals at that point.
\<close>

function flag_parse_loop :: "globals \<Rightarrow> string list \<Rightarrow> bool \<times> globals" where
  "flag_parse_loop c [] = (True, c\<lparr>rest_argc := 0, rest_argv := []\<rparr>)"
| "flag_parse_loop c (flag # args) =
     (if (case flag of [] \<Rightarrow> True | ch # _ \<Rightarrow> ch \<noteq> CHR ''-'') then
        (True, c\<lparr>rest_argc := int (length args) + 1, rest_argv := flag # args\<rparr>)
      else if flag = ''--'' then
        (True, c\<lparr>rest_argc := int (length args), rest_argv := args\<rparr>)
      else
        (case flag_scan (tl flag) 0 c args False of
           Failed c' \<Rightarrow> (False, c')
         | Scanned c' args' found \<Rightarrow>
             if \<not> found then
               (False, c'\<lparr>flag_error := FLAG_ERROR_UNKNOWN, flag_error_name := Some (tl flag)\<rparr>)
             else flag_parse_loop c' args'))"
  by pat_completeness auto
termination
  by (relation "measure (\<lambda>(c, args). length args)")
     (auto dest: flag_scan_length simp: less_Suc_eq_le)

declare flag_parse_loop.simps(2) [simp del]

text \<open>
  \<^verbatim>\<open>flag_parse\<close> first shifts the program name off, so an empty argument vector
  aborts. Inside the loop every shift is guarded by \<^verbatim>\<open>argc > 0\<close>.
\<close>

definition flag_parse :: "globals \<Rightarrow> string list \<Rightarrow> (bool \<times> globals) option" where
  "flag_parse c argv =
     (case flag_shift_args argv of
        None \<Rightarrow> None
      | Some (_, args) \<Rightarrow> Some (flag_parse_loop c args))"

text \<open>
  \<^verbatim>\<open>flag_print_error\<close>: the text written to the stream. \<^verbatim>\<open>%s\<close> with a \<^verbatim>\<open>NULL\<close>
  name is undefined behaviour (\<open>None\<close>).
\<close>

definition flag_print_error :: "globals \<Rightarrow> string option" where
  "flag_print_error c =
     (case flag_error c of
        FLAG_NO_ERROR \<Rightarrow>
          Some (''Operation Failed Successfully! Please tell the developer of this software '' @
                ''that they don't know what they are doing! :)'')
      | FLAG_ERROR_UNKNOWN \<Rightarrow>
          map_option (\<lambda>n. ''ERROR: -'' @ n @ '': unknown flag'' @ [CHR 0x0A]) (flag_error_name c)
      | FLAG_ERROR_NO_VALUE \<Rightarrow>
          map_option (\<lambda>n. ''ERROR: -'' @ n @ '': no value provided'' @ [CHR 0x0A]) (flag_error_name c)
      | FLAG_ERROR_INVALID_NUMBER \<Rightarrow>
          map_option (\<lambda>n. ''ERROR: -'' @ n @ '': invalid number'' @ [CHR 0x0A]) (flag_error_name c)
      | FLAG_ERROR_INTEGER_OVERFLOW \<Rightarrow>
          map_option (\<lambda>n. ''ERROR: -'' @ n @ '': integer overflow'' @ [CHR 0x0A]) (flag_error_name c))"

section \<open>Example states\<close>

text \<open>
  The globals of a program at start-up (static storage is zeroed), and the registry of a
  program that declared a Boolean flag \<^verbatim>\<open>verbose\<close>, an integer flag \<^verbatim>\<open>count\<close> and a
  string flag \<^verbatim>\<open>out\<close>.
\<close>

definition initial_globals :: globals where
  "initial_globals =
     \<lparr>flags = [], flag_error = FLAG_NO_ERROR, flag_error_name = None,
      rest_argc = 0, rest_argv = [], errno = 0\<rparr>"

definition example_flags :: "Flag list" where
  "example_flags =
     [\<lparr>type = FLAG_BOOL, name = ''verbose'', desc = ''talk more'',
       val = As_bool False, def = As_bool False\<rparr>,
      \<lparr>type = FLAG_UINT64, name = ''count'', desc = ''how many'',
       val = As_uint64 7, def = As_uint64 7\<rparr>,
      \<lparr>type = FLAG_STR, name = ''out'', desc = ''where to'',
       val = As_str None, def = As_str None\<rparr>]"

definition example_globals :: globals where
  "example_globals = initial_globals\<lparr>flags := example_flags\<rparr>"

lemmas example_defs = example_globals_def example_flags_def initial_globals_def

section \<open>The scan of the registry\<close>

text \<open>The globals a scan ends with, whichever way it ends.\<close>

definition scan_globals :: "scan_result \<Rightarrow> globals" where
  "scan_globals r = (case r of Failed c \<Rightarrow> c | Scanned c _ _ \<Rightarrow> c)"

lemma scan_globals_simps [simp]:
  "scan_globals (Failed c) = c" "scan_globals (Scanned c args found) = c"
  by (simp_all add: scan_globals_def)

lemma flag_scan_end:
  "length (flags c) \<le> i \<Longrightarrow> flag_scan flag i c args found = Scanned c args found"
  by (simp add: flag_scan.simps)

lemma flag_scan_skip_one:
  "i < length (flags c) \<Longrightarrow> name (flags c ! i) \<noteq> flag \<Longrightarrow>
   flag_scan flag i c args found = flag_scan flag (Suc i) c args found"
  by (simp add: flag_scan.simps [of flag i])

text \<open>Entries whose name differs from the token's are passed over.\<close>

lemma flag_scan_skip:
  assumes "i \<le> j" and "j \<le> length (flags c)"
    and "\<forall>k. i \<le> k \<and> k < j \<longrightarrow> name (flags c ! k) \<noteq> flag"
  shows "flag_scan flag i c args found = flag_scan flag j c args found"
  using assms
proof (induction "j - i" arbitrary: i)
  case 0
  then show ?case by simp
next
  case (Suc d)
  then have "i < length (flags c)" and "name (flags c ! i) \<noteq> flag" by auto
  then have "flag_scan flag i c args found = flag_scan flag (Suc i) c args found"
    by (rule flag_scan_skip_one)
  also have "\<dots> = flag_scan flag j c args found"
    using Suc.hyps(1) [of "Suc i"] Suc.hyps(2) Suc.prems by auto
  finally show ?case .
qed

lemma flag_scan_no_match:
  assumes "\<forall>k. i \<le> k \<and> k < length (flags c) \<longrightarrow> name (flags c ! k) \<noteq> flag"
  shows "flag_scan flag i c args found = Scanned c args found"
proof (cases "i \<le> length (flags c)")
  case True
  then have "flag_scan flag i c args found = flag_scan flag (length (flags c)) c args found"
    using assms by (intro flag_scan_skip) auto
  then show ?thesis by (simp add: flag_scan_end)
next
  case False
  then show ?thesis by (simp add: flag_scan_end)
qed

lemma flag_parse_loop_unknown:
  assumes "flag = CHR ''-'' # nm" and "flag \<noteq> ''--''"
    and "\<forall>f \<in> set (flags c). name f \<noteq> nm"
  shows "flag_parse_loop c (flag # args) =
           (False, c\<lparr>flag_error := FLAG_ERROR_UNKNOWN, flag_error_name := Some nm\<rparr>)"
proof -
  have "flag_scan nm 0 c args False = Scanned c args False"
    using assms(3) by (intro flag_scan_no_match) simp
  with assms(1,2) show ?thesis
    by (simp add: flag_parse_loop.simps(2))
qed

section \<open>Positional tokens and the terminator\<close>

text \<open>
  Claim C1. When the next token of a parse pass does not start with \<^verbatim>\<open>-\<close> (the empty
  token included), \<^verbatim>\<open>flag_parse\<close> returns \<^verbatim>\<open>true\<close> at once, whatever the globals
  are at that point: the leftover arguments are that token and everything after it,
  and the registry is as it was when the token was reached. The second conjunct is the
  same for a token that comes right after the program name.
\<close>

theorem positional_token_stops:
  assumes "take 1 flag \<noteq> ''-''"
  shows "flag_parse_loop c (flag # args) =
           (True, c\<lparr>rest_argc := int (length (flag # args)), rest_argv := flag # args\<rparr>)
         \<and> flag_parse c (prog # flag # args) =
           Some (True, c\<lparr>rest_argc := int (length (flag # args)), rest_argv := flag # args\<rparr>)
         \<and> flags (snd (flag_parse_loop c (flag # args))) = flags c
         \<and> flag_rest_argv (snd (flag_parse_loop c (flag # args))) = flag # args
         \<and> flag_rest_argc (snd (flag_parse_loop c (flag # args))) = int (length (flag # args))"
proof -
  from assms have "(case flag of [] \<Rightarrow> True | ch # _ \<Rightarrow> ch \<noteq> CHR ''-'')"
    by (cases flag) auto
  then have "flag_parse_loop c (flag # args) =
      (True, c\<lparr>rest_argc := int (length (flag # args)), rest_argv := flag # args\<rparr>)"
    by (simp add: flag_parse_loop.simps(2))
  then show ?thesis
    by (simp add: flag_parse_def flag_rest_argv_def flag_rest_argc_def)
qed

theorem positional_token_stops_witness:
  "take 1 ''foo'' \<noteq> ''-''
   \<and> flag_parse example_globals [''prog'', ''foo'', ''-verbose''] =
       Some (True, example_globals\<lparr>rest_argc := 2, rest_argv := [''foo'', ''-verbose'']\<rparr>)
   \<and> flags (snd (flag_parse_loop example_globals [''foo'', ''-verbose''])) = example_flags"
proof -
  have h: "take 1 ''foo'' \<noteq> ''-''" by simp
  show ?thesis
    using h positional_token_stops [OF h, of example_globals "[''-verbose'']" "''prog''"]
    by (simp add: example_globals_def)
qed

text \<open>
  Claim C6. When the next token of a parse pass is exactly \<^verbatim>\<open>--\<close>, \<^verbatim>\<open>flag_parse\<close>
  returns \<^verbatim>\<open>true\<close> at once: the leftover arguments are the tokens after the
  terminator, without it, and the registry is as it was when the terminator was
  reached, whatever follows it.
\<close>

theorem terminator_stops:
  "flag_parse_loop c (''--'' # args) =
     (True, c\<lparr>rest_argc := int (length args), rest_argv := args\<rparr>)
   \<and> flag_parse c (prog # ''--'' # args) =
     Some (True, c\<lparr>rest_argc := int (length args), rest_argv := args\<rparr>)
   \<and> flags (snd (flag_parse_loop c (''--'' # args))) = flags c
   \<and> flag_rest_argv (snd (flag_parse_loop c (''--'' # args))) = args
   \<and> flag_rest_argc (snd (flag_parse_loop c (''--'' # args))) = int (length args)"
  by (simp add: flag_parse_loop.simps(2) flag_parse_def flag_rest_argv_def flag_rest_argc_def)

section \<open>Unknown flags\<close>

text \<open>
  Claim C2. When the next token of a parse pass is \<^verbatim>\<open>-\<close> followed by a name that
  no declared flag has, and is not the terminator \<^verbatim>\<open>--\<close>, \<^verbatim>\<open>flag_parse\<close> returns
  \<^verbatim>\<open>false\<close> with the error \<^verbatim>\<open>FLAG_ERROR_UNKNOWN\<close> and that name. Nothing else of
  the globals changes and the result does not depend on the tokens after it: none of
  them is processed. This holds for every registry.
\<close>

theorem unknown_flag_fails:
  assumes "flag = CHR ''-'' # nm" and "flag \<noteq> ''--''"
    and "\<forall>f \<in> set (flags c). name f \<noteq> nm"
  shows "flag_parse_loop c (flag # args) =
           (False, c\<lparr>flag_error := FLAG_ERROR_UNKNOWN, flag_error_name := Some nm\<rparr>)
         \<and> flag_parse c (prog # flag # args) =
           Some (False, c\<lparr>flag_error := FLAG_ERROR_UNKNOWN, flag_error_name := Some nm\<rparr>)"
  using flag_parse_loop_unknown [OF assms] by (simp add: flag_parse_def)

theorem unknown_flag_fails_witness:
  "flag_parse example_globals [''prog'', ''-unknown'', ''-verbose''] =
     Some (False, example_globals\<lparr>flag_error := FLAG_ERROR_UNKNOWN,
                                  flag_error_name := Some ''unknown''\<rparr>)
   \<and> flag_parse initial_globals [''prog'', ''-unknown''] =
     Some (False, initial_globals\<lparr>flag_error := FLAG_ERROR_UNKNOWN,
                                  flag_error_name := Some ''unknown''\<rparr>)"
proof -
  have a: "''-unknown'' = CHR ''-'' # ''unknown''" and b: "''-unknown'' \<noteq> ''--''" by simp_all
  have c: "\<forall>f \<in> set (flags example_globals). name f \<noteq> ''unknown''"
    by (simp add: example_defs)
  have d: "\<forall>f \<in> set (flags initial_globals). name f \<noteq> ''unknown''"
    by (simp add: example_defs)
  show ?thesis
    using unknown_flag_fails [OF a b c, of "[''-verbose'']" "''prog''"]
      unknown_flag_fails [OF a b d, of "[]" "''prog''"]
    by simp
qed

text \<open>
  Claim C10. A bare \<^verbatim>\<open>-\<close> is neither a positional argument nor the terminator: it
  is looked up as the flag with the empty name. When no flag was declared with the
  empty name, \<^verbatim>\<open>flag_parse\<close> returns \<^verbatim>\<open>false\<close> with the error
  \<^verbatim>\<open>FLAG_ERROR_UNKNOWN\<close> and the empty string as the name.
\<close>

theorem bare_dash_is_unknown_flag:
  assumes "\<forall>f \<in> set (flags c). name f \<noteq> ''''"
  shows "flag_parse_loop c (''-'' # args) =
           (False, c\<lparr>flag_error := FLAG_ERROR_UNKNOWN, flag_error_name := Some ''''\<rparr>)
         \<and> flag_parse c (prog # ''-'' # args) =
           Some (False, c\<lparr>flag_error := FLAG_ERROR_UNKNOWN, flag_error_name := Some ''''\<rparr>)"
proof -
  have "flag_parse_loop c (''-'' # args) =
          (False, c\<lparr>flag_error := FLAG_ERROR_UNKNOWN, flag_error_name := Some ''''\<rparr>)"
    using assms by (intro flag_parse_loop_unknown) simp_all
  then show ?thesis by (simp add: flag_parse_def)
qed

theorem bare_dash_is_unknown_flag_witness:
  "flag_parse example_globals [''prog'', ''-'', ''out.txt''] =
     Some (False, example_globals\<lparr>flag_error := FLAG_ERROR_UNKNOWN,
                                  flag_error_name := Some ''''\<rparr>)"
proof -
  have h: "\<forall>f \<in> set (flags example_globals). name f \<noteq> ''''"
    by (simp add: example_defs)
  show ?thesis
    using bare_dash_is_unknown_flag [OF h, of "[''out.txt'']" "''prog''"] by simp
qed

section \<open>Matched flags\<close>

lemma set_val_nth:
  "flags (set_val i v c) ! k =
     (if k = i \<and> i < length (flags c) then (flags c ! i)\<lparr>val := v\<rparr> else flags c ! k)"
  by (cases "i < length (flags c)") (auto simp: set_val_def nth_list_update list_update_beyond)

lemma set_val_flags [simp]:
  "length (flags (set_val i v c)) = length (flags c)"
  "name (flags (set_val i v c) ! k) = name (flags c ! k)"
  "type (flags (set_val i v c) ! k) = type (flags c ! k)"
  "def (flags (set_val i v c) ! k) = def (flags c ! k)"
  "desc (flags (set_val i v c) ! k) = desc (flags c ! k)"
  "k \<noteq> i \<Longrightarrow> flags (set_val i v c) ! k = flags c ! k"
  "i < length (flags c) \<Longrightarrow> val (flags (set_val i v c) ! i) = v"
  by (simp_all add: set_val_nth) (simp add: set_val_def)

lemma set_val_fields [simp]:
  "flag_error (set_val i v c) = flag_error c"
  "flag_error_name (set_val i v c) = flag_error_name c"
  "rest_argc (set_val i v c) = rest_argc c"
  "rest_argv (set_val i v c) = rest_argv c"
  "errno (set_val i v c) = errno c"
  by (simp_all add: set_val_def)

lemma flag_scan_bool:
  assumes "i < length (flags c)" and "name (flags c ! i) = flag"
    and "type (flags c ! i) = FLAG_BOOL"
  shows "flag_scan flag i c args found =
           flag_scan flag (Suc i) (set_val i (As_bool True) c) args True"
  using assms by (simp add: flag_scan.simps [of flag i])

lemma flag_scan_str:
  assumes "i < length (flags c)" and "name (flags c ! i) = flag"
    and "type (flags c ! i) = FLAG_STR"
  shows "flag_scan flag i c [] found =
           Failed (c\<lparr>flag_error := FLAG_ERROR_NO_VALUE, flag_error_name := Some flag\<rparr>)"
    and "flag_scan flag i c (arg # args) found =
           flag_scan flag (Suc i) (set_val i (As_str (Some arg)) c) args True"
  using assms by (simp_all add: flag_scan.simps [of flag i])

text \<open>
  The loop of \<^verbatim>\<open>flag_parse\<close> at a flag token, when no entry before \<open>i\<close> has the
  token's name: the scan comes to entry \<open>i\<close> with nothing changed.
\<close>

lemma flag_parse_loop_first_match:
  assumes "nm \<noteq> ''-''" and "i \<le> length (flags c)"
    and "\<forall>k<i. name (flags c ! k) \<noteq> nm"
  shows "flag_parse_loop c ((CHR ''-'' # nm) # args) =
           (case flag_scan nm i c args False of
              Failed c' \<Rightarrow> (False, c')
            | Scanned c' args' found \<Rightarrow>
                if \<not> found then
                  (False, c'\<lparr>flag_error := FLAG_ERROR_UNKNOWN, flag_error_name := Some nm\<rparr>)
                else flag_parse_loop c' args')"
proof -
  have "flag_scan nm 0 c args False = flag_scan nm i c args False"
    using assms(2,3) by (intro flag_scan_skip) auto
  with assms(1) show ?thesis
    by (simp add: flag_parse_loop.simps(2) split: scan_result.split)
qed

lemma flag_scan_after_last_match:
  assumes "\<forall>k<length (flags c). k \<noteq> i \<longrightarrow> name (flags c ! k) \<noteq> nm"
  shows "flag_scan nm (Suc i) (set_val i v c) args found = Scanned (set_val i v c) args found"
  using assms by (intro flag_scan_no_match) auto

text \<open>
  Claim C7. For every entry of type \<^verbatim>\<open>FLAG_STR\<close> that the scan matches (entry \<open>i\<close>,
  at any point of the scan and of the pass): with no argument left the scan ends in
  \<^verbatim>\<open>return false\<close> with the error \<^verbatim>\<open>FLAG_ERROR_NO_VALUE\<close> and the flag's name;
  otherwise the next argument, whatever its text, is taken off the arguments and
  stored as the entry's value, and the scan goes on at the next entry. For
  \<^verbatim>\<open>flag_parse\<close> as a whole: when the entry is the first of its name, a token list
  that ends with the flag's token fails with that error; when it is the only entry
  of its name, the pass stores the next token and goes on with the tokens after it.
\<close>

theorem string_flag_takes_next_token:
  assumes "i < length (flags c)" and "type (flags c ! i) = FLAG_STR"
    and "name (flags c ! i) = nm"
  shows "flag_scan nm i c [] found =
           Failed (c\<lparr>flag_error := FLAG_ERROR_NO_VALUE, flag_error_name := Some nm\<rparr>)
         \<and> flag_scan nm i c (arg # args) found =
           flag_scan nm (Suc i) (set_val i (As_str (Some arg)) c) args True
         \<and> val (flags (set_val i (As_str (Some arg)) c) ! i) = As_str (Some arg)
         \<and> (nm \<noteq> ''-'' \<and> (\<forall>k<i. name (flags c ! k) \<noteq> nm) \<longrightarrow>
              flag_parse c [prog, CHR ''-'' # nm] =
                Some (False, c\<lparr>flag_error := FLAG_ERROR_NO_VALUE, flag_error_name := Some nm\<rparr>))
         \<and> (nm \<noteq> ''-'' \<and> (\<forall>k<length (flags c). k \<noteq> i \<longrightarrow> name (flags c ! k) \<noteq> nm) \<longrightarrow>
              flag_parse c (prog # (CHR ''-'' # nm) # arg # args) =
                Some (flag_parse_loop (set_val i (As_str (Some arg)) c) args))"
proof (intro conjI impI)
  show "flag_scan nm i c [] found =
      Failed (c\<lparr>flag_error := FLAG_ERROR_NO_VALUE, flag_error_name := Some nm\<rparr>)"
    using assms by (simp add: flag_scan_str(1))
  show "flag_scan nm i c (arg # args) found =
      flag_scan nm (Suc i) (set_val i (As_str (Some arg)) c) args True"
    using assms by (simp add: flag_scan_str(2))
  show "val (flags (set_val i (As_str (Some arg)) c) ! i) = As_str (Some arg)"
    using assms(1) by simp
next
  assume h: "nm \<noteq> ''-'' \<and> (\<forall>k<i. name (flags c ! k) \<noteq> nm)"
  have "flag_parse_loop c [CHR ''-'' # nm] =
      (False, c\<lparr>flag_error := FLAG_ERROR_NO_VALUE, flag_error_name := Some nm\<rparr>)"
    using h assms by (simp add: flag_parse_loop_first_match [of nm i] flag_scan_str(1))
  then show "flag_parse c [prog, CHR ''-'' # nm] =
      Some (False, c\<lparr>flag_error := FLAG_ERROR_NO_VALUE, flag_error_name := Some nm\<rparr>)"
    by (simp add: flag_parse_def)
next
  assume h: "nm \<noteq> ''-'' \<and> (\<forall>k<length (flags c). k \<noteq> i \<longrightarrow> name (flags c ! k) \<noteq> nm)"
  then have first: "\<forall>k<i. name (flags c ! k) \<noteq> nm"
    using assms(1) by auto
  have "flag_scan nm i c (arg # args) False =
      Scanned (set_val i (As_str (Some arg)) c) args True"
    using assms h by (simp add: flag_scan_str(2) flag_scan_after_last_match)
  then have "flag_parse_loop c ((CHR ''-'' # nm) # arg # args) =
      flag_parse_loop (set_val i (As_str (Some arg)) c) args"
    using h first assms(1) by (simp add: flag_parse_loop_first_match [of nm i])
  then show "flag_parse c (prog # (CHR ''-'' # nm) # arg # args) =
      Some (flag_parse_loop (set_val i (As_str (Some arg)) c) args)"
    by (simp add: flag_parse_def)
qed
theorem string_flag_takes_next_token_witness:
  "flag_parse example_globals [''prog'', ''-out''] =
     Some (False, example_globals\<lparr>flag_error := FLAG_ERROR_NO_VALUE,
                                  flag_error_name := Some ''out''\<rparr>)
   \<and> flag_parse example_globals [''prog'', ''-out'', ''-verbose''] =
     Some (True, (set_val 2 (As_str (Some ''-verbose'')) example_globals)
                   \<lparr>rest_argc := 0, rest_argv := []\<rparr>)
   \<and> val (flags (set_val 2 (As_str (Some ''-verbose'')) example_globals) ! 2) =
       As_str (Some ''-verbose'')"
proof -
  have a: "2 < length (flags example_globals)"
    and b: "type (flags example_globals ! 2) = FLAG_STR"
    and c: "name (flags example_globals ! 2) = ''out''"
    by (simp_all add: example_defs)
  have d: "''out'' \<noteq> ''-'' \<and> (\<forall>k<2. name (flags example_globals ! k) \<noteq> ''out'')"
    by (simp add: example_defs numeral_2_eq_2 All_less_Suc)
  have e: "''out'' \<noteq> ''-'' \<and> (\<forall>k<length (flags example_globals). k \<noteq> 2 \<longrightarrow>
             name (flags example_globals ! k) \<noteq> ''out'')"
    by (simp add: example_defs All_less_Suc)
  show ?thesis
    using string_flag_takes_next_token [OF a b c, of False "''-verbose''" "[]" "''prog''"] d e
    by simp
qed

section \<open>Integer flags\<close>

text \<open>
  The tokens \<^verbatim>\<open>strtoull\<close> converts in full: white space, then at most one sign, then
  one or more decimal digits up to the end of the token.
\<close>

definition numeral_token :: "string \<Rightarrow> string \<Rightarrow> string \<Rightarrow> string \<Rightarrow> bool" where
  "numeral_token tok ws sg ds =
     (tok = ws @ sg @ ds \<and> list_all isspace ws \<and> (sg = [] \<or> sg = ''+'' \<or> sg = ''-'')
      \<and> ds \<noteq> [] \<and> list_all isdigit ds)"

text \<open>The value of such a token in \<^verbatim>\<open>unsigned long long\<close>: negated after a minus sign.\<close>

definition numeral_value :: "string \<Rightarrow> string \<Rightarrow> 64 word" where
  "numeral_value sg ds =
     (if sg = ''-'' then - word_of_nat (decimal 0 ds) else word_of_nat (decimal 0 ds))"

lemma isdigit_not_isspace: "isdigit ch \<Longrightarrow> \<not> isspace ch"
  by (auto simp: isdigit_def isspace_def)

lemma isdigit_not_sign: "isdigit ch \<Longrightarrow> ch \<noteq> CHR ''-'' \<and> ch \<noteq> CHR ''+''"
  by (auto simp: isdigit_def)

lemma sign_not_isspace: "\<not> isspace CHR ''-''" "\<not> isspace CHR ''+''"
  by (simp_all add: isspace_def)

lemma numeral_token_last_digit:
  assumes "numeral_token tok ws sg ds"
  shows "tok \<noteq> [] \<and> isdigit (last tok)"
proof -
  from assms have "ds \<noteq> []" and "list_all isdigit ds" and "tok = ws @ sg @ ds"
    by (simp_all add: numeral_token_def)
  then have "last tok = last ds" and "last ds \<in> set ds" and "tok \<noteq> []" by simp_all
  with \<open>list_all isdigit ds\<close> show ?thesis by (simp add: list_all_iff)
qed

lemma strtoull_numeral_token:
  assumes "numeral_token tok ws sg ds"
  shows "strtoull tok e =
           (if ULLONG_MAX < decimal 0 ds then (word_of_nat ULLONG_MAX, length tok, ERANGE)
            else (numeral_value sg ds, length tok, e))"
proof -
  from assms have tok: "tok = ws @ sg @ ds" and ws: "list_all isspace ws"
    and sg: "sg = [] \<or> sg = ''+'' \<or> sg = ''-''"
    and ds: "ds \<noteq> []" "list_all isdigit ds"
    by (simp_all add: numeral_token_def)
  from ds obtain d ds' where dd: "ds = d # ds'" and d: "isdigit d"
    by (cases ds) auto
  have "dropWhile isspace tok = dropWhile isspace (sg @ ds)"
    using ws by (simp add: tok list_all_iff dropWhile_append2)
  also have "\<dots> = sg @ ds"
    using sg d by (auto simp: dd sign_not_isspace isdigit_not_isspace)
  finally have s1: "dropWhile isspace tok = sg @ ds" .
  have t: "takeWhile isdigit ds = ds" and r: "dropWhile isdigit ds = []"
    using ds(2) by (simp_all add: list_all_iff)
  have neg: "(case sg @ ds of [] \<Rightarrow> False | ch # _ \<Rightarrow> ch = CHR ''-'') = (sg = ''-'')"
    using sg dd isdigit_not_sign [OF d] by auto
  have s2: "(case sg @ ds of [] \<Rightarrow> []
             | ch # cs \<Rightarrow> if ch = CHR ''-'' \<or> ch = CHR ''+'' then cs else sg @ ds) = ds"
    using sg dd isdigit_not_sign [OF d] by auto
  show ?thesis
    by (simp add: strtoull_def Let_def s1 neg s2 t r ds(1) numeral_value_def)
qed

lemma strtoull_not_numeral_token:
  assumes "\<not> (\<exists>ws sg ds. numeral_token tok ws sg ds)"
    and "strtoull tok e = (result, endptr, e')"
  shows "endptr = 0 \<or> endptr < length tok"
proof (rule ccontr)
  assume n: "\<not> (endptr = 0 \<or> endptr < length tok)"
  define s1 where "s1 = dropWhile isspace tok"
  define sg where "sg = (case s1 of [] \<Rightarrow> []
      | ch # cs \<Rightarrow> if ch = CHR ''-'' \<or> ch = CHR ''+'' then [ch] else [])"
  define s2 where "s2 = (case s1 of [] \<Rightarrow> []
      | ch # cs \<Rightarrow> if ch = CHR ''-'' \<or> ch = CHR ''+'' then cs else s1)"
  have eq: "strtoull tok e =
      (if takeWhile isdigit s2 = [] then (0, 0, e)
       else if ULLONG_MAX < decimal 0 (takeWhile isdigit s2)
         then (word_of_nat ULLONG_MAX, length tok - length (dropWhile isdigit s2), ERANGE)
       else if (case s1 of [] \<Rightarrow> False | ch # _ \<Rightarrow> ch = CHR ''-'')
         then (- word_of_nat (decimal 0 (takeWhile isdigit s2)),
               length tok - length (dropWhile isdigit s2), e)
       else (word_of_nat (decimal 0 (takeWhile isdigit s2)),
             length tok - length (dropWhile isdigit s2), e))"
    unfolding strtoull_def Let_def s2_def s1_def by (simp cong: list.case_cong if_cong)
  have ne: "takeWhile isdigit s2 \<noteq> []"
  proof
    assume "takeWhile isdigit s2 = []"
    with eq assms(2) have "endptr = 0" by simp
    with n show False by simp
  qed
  then have "s2 \<noteq> []" by auto
  have split1: "s1 = sg @ s2"
    by (cases s1) (auto simp: sg_def s2_def)
  have "tok = takeWhile isspace tok @ s1"
    by (simp add: s1_def)
  with split1 have tok: "tok = takeWhile isspace tok @ sg @ s2" by simp
  then have "tok \<noteq> []" using \<open>s2 \<noteq> []\<close> by auto
  have "endptr = length tok - length (dropWhile isdigit s2)"
    using ne eq assms(2) by (simp split: if_splits)
  with n \<open>tok \<noteq> []\<close> have "dropWhile isdigit s2 = []"
    by (cases "dropWhile isdigit s2") auto
  then have "list_all isdigit s2"
    by (simp add: list_all_iff dropWhile_eq_Nil_conv)
  moreover have "list_all isspace (takeWhile isspace tok)"
    by (auto simp: list_all_iff dest: set_takeWhileD)
  moreover have "sg = [] \<or> sg = ''+'' \<or> sg = ''-''"
    by (cases s1) (auto simp: sg_def)
  ultimately have "numeral_token tok (takeWhile isspace tok) sg s2"
    using tok \<open>s2 \<noteq> []\<close> by (simp add: numeral_token_def)
  with assms(1) show False by blast
qed
lemma flag_scan_uint64_missing:
  assumes "i < length (flags c)" and "name (flags c ! i) = flag"
    and "type (flags c ! i) = FLAG_UINT64"
  shows "flag_scan flag i c [] found =
           Failed (c\<lparr>flag_error := FLAG_ERROR_NO_VALUE, flag_error_name := Some flag\<rparr>)"
  using assms by (simp add: flag_scan.simps [of flag i])

lemma flag_scan_uint64:
  assumes "i < length (flags c)" and "name (flags c ! i) = flag"
    and "type (flags c ! i) = FLAG_UINT64"
    and "strtoull arg (errno c) = (result, endptr, e)"
  shows "flag_scan flag i c (arg # args) found =
           (if endptr = 0 \<or> endptr < length arg then
              Failed (c\<lparr>flag_error := FLAG_ERROR_INVALID_NUMBER,
                        flag_error_name := Some flag, errno := e\<rparr>)
            else if unat result = ULLONG_MAX \<and> e = ERANGE then
              Failed (c\<lparr>flag_error := FLAG_ERROR_INTEGER_OVERFLOW,
                        flag_error_name := Some flag, errno := e\<rparr>)
            else flag_scan flag (Suc i) (set_val i (As_uint64 result) (c\<lparr>errno := e\<rparr>)) args True)"
  using assms by (simp add: flag_scan.simps [of flag i])

lemma flag_scan_uint64_invalid:
  assumes "i < length (flags c)" and "name (flags c ! i) = flag"
    and "type (flags c ! i) = FLAG_UINT64"
    and "\<not> (\<exists>ws sg ds. numeral_token arg ws sg ds)"
  shows "\<exists>e. flag_scan flag i c (arg # args) found =
           Failed (c\<lparr>flag_error := FLAG_ERROR_INVALID_NUMBER,
                     flag_error_name := Some flag, errno := e\<rparr>)"
proof -
  obtain result endptr e where s: "strtoull arg (errno c) = (result, endptr, e)"
    by (cases "strtoull arg (errno c)") auto
  from strtoull_not_numeral_token [OF assms(4) s]
  have "endptr = 0 \<or> endptr < length arg" .
  with flag_scan_uint64 [OF assms(1-3) s] show ?thesis by auto
qed

lemma numeral_token_length:
  "numeral_token tok ws sg ds \<Longrightarrow> 0 < length tok"
  by (auto simp: numeral_token_def)

lemma unat_ULLONG_MAX: "unat (word_of_nat ULLONG_MAX :: 64 word) = ULLONG_MAX"
  by (simp add: ULLONG_MAX_def unat_of_nat)

lemma flag_scan_uint64_overflow:
  assumes "i < length (flags c)" and "name (flags c ! i) = flag"
    and "type (flags c ! i) = FLAG_UINT64"
    and "numeral_token arg ws sg ds" and "ULLONG_MAX < decimal 0 ds"
  shows "flag_scan flag i c (arg # args) found =
           Failed (c\<lparr>flag_error := FLAG_ERROR_INTEGER_OVERFLOW,
                     flag_error_name := Some flag, errno := ERANGE\<rparr>)"
proof -
  have s: "strtoull arg (errno c) = (word_of_nat ULLONG_MAX, length arg, ERANGE)"
    using assms(4,5) by (simp add: strtoull_numeral_token)
  show ?thesis
    using flag_scan_uint64 [OF assms(1-3) s] numeral_token_length [OF assms(4)]
    by (simp add: unat_ULLONG_MAX)
qed

lemma unat_eq_ULLONG_MAX: "unat (w :: 64 word) = ULLONG_MAX \<longleftrightarrow> w = - 1"
proof
  assume "unat w = ULLONG_MAX"
  then have "unat w = unat (- 1 :: 64 word)"
    by (simp add: ULLONG_MAX_def unsigned_minus_1_eq_mask mask_eq_exp_minus_1)
  then show "w = - 1" by (simp only: word_unat_eq_iff)
next
  assume "w = - 1"
  then show "unat w = ULLONG_MAX"
    by (simp add: ULLONG_MAX_def unsigned_minus_1_eq_mask mask_eq_exp_minus_1)
qed

lemma flag_scan_uint64_store:
  assumes "i < length (flags c)" and "name (flags c ! i) = flag"
    and "type (flags c ! i) = FLAG_UINT64"
    and "numeral_token arg ws sg ds" and "decimal 0 ds \<le> ULLONG_MAX"
    and "errno c \<noteq> ERANGE \<or> numeral_value sg ds \<noteq> - 1"
  shows "flag_scan flag i c (arg # args) found =
           flag_scan flag (Suc i) (set_val i (As_uint64 (numeral_value sg ds)) c) args True"
proof -
  have s: "strtoull arg (errno c) = (numeral_value sg ds, length arg, errno c)"
    using assms(4,5) by (simp add: strtoull_numeral_token)
  have "c\<lparr>errno := errno c\<rparr> = c" by simp
  then show ?thesis
    using flag_scan_uint64 [OF assms(1-3) s] numeral_token_length [OF assms(4)] assms(6)
    by (auto simp: unat_eq_ULLONG_MAX)
qed
text \<open>
  Claim C5, as stated, fails: the claim has every token that is not fully numeric give
  \<^verbatim>\<open>FLAG_ERROR_INVALID_NUMBER\<close>, but the token is converted by \<^verbatim>\<open>strtoull\<close>, which
  accepts a sign and leading white space. \<^verbatim>\<open>-count +42\<close> and \<^verbatim>\<open>-count " 42"\<close>
  store 42 and the pass succeeds; \<^verbatim>\<open>-count -1\<close> stores \<open>2\<^sup>6\<^sup>4 - 1\<close>. Nor is every
  numeric token within the range stored: \<^verbatim>\<open>flag_parse\<close> does not clear \<^verbatim>\<open>errno\<close>
  before the conversion, so after a pass that failed with an overflow, which leaves
  \<^verbatim>\<open>ERANGE\<close> in it, the token \<^verbatim>\<open>18446744073709551615\<close> (\<open>2\<^sup>6\<^sup>4 - 1\<close>) is reported as
  an overflow.
\<close>

theorem uint64_conversion_not_as_claimed:
  "flag_parse example_globals [''prog'', ''-count'', ''+42''] =
     Some (True, (set_val 1 (As_uint64 42) example_globals)\<lparr>rest_argc := 0, rest_argv := []\<rparr>)
   \<and> flag_parse example_globals [''prog'', ''-count'', '' 42''] =
     Some (True, (set_val 1 (As_uint64 42) example_globals)\<lparr>rest_argc := 0, rest_argv := []\<rparr>)
   \<and> flag_parse example_globals [''prog'', ''-count'', ''-1''] =
     Some (True, (set_val 1 (As_uint64 (- 1)) example_globals)\<lparr>rest_argc := 0, rest_argv := []\<rparr>)
   \<and> flag_error (snd (the (flag_parse example_globals [''prog'', ''-count'', ''+42''])))
       \<noteq> FLAG_ERROR_INVALID_NUMBER
   \<and> flag_parse example_globals [''prog'', ''-count'', ''99999999999999999999''] =
     Some (False, example_globals\<lparr>flag_error := FLAG_ERROR_INTEGER_OVERFLOW,
                                  flag_error_name := Some ''count'', errno := ERANGE\<rparr>)
   \<and> flag_parse (example_globals\<lparr>flag_error := FLAG_ERROR_INTEGER_OVERFLOW,
                                  flag_error_name := Some ''count'', errno := ERANGE\<rparr>)
       [''prog'', ''-count'', ''18446744073709551615''] =
     Some (False, example_globals\<lparr>flag_error := FLAG_ERROR_INTEGER_OVERFLOW,
                                  flag_error_name := Some ''count'', errno := ERANGE\<rparr>)"
  by (simp add: example_defs flag_parse_def flag_parse_loop.simps flag_scan.simps set_val_def
      strtoull_def isspace_def isdigit_def digit_val_def ULLONG_MAX_def ERANGE_def Let_def
      unsigned_minus_1_eq_mask mask_eq_exp_minus_1)

text \<open>
  Claim C5, amended. For every entry of type \<^verbatim>\<open>FLAG_UINT64\<close> that the scan matches
  (entry \<open>i\<close>, at any point of the scan and of the pass): with no argument left the
  scan ends in \<^verbatim>\<open>return false\<close> with \<^verbatim>\<open>FLAG_ERROR_NO_VALUE\<close> and the flag's name.
  Otherwise the next argument is taken and converted by \<^verbatim>\<open>strtoull\<close> in base 10, in
  full: an argument that is not white space, at most one sign and then one or more
  digits up to its end (the empty argument included) gives
  \<^verbatim>\<open>FLAG_ERROR_INVALID_NUMBER\<close>; an argument of that form whose digits exceed
  \<open>2\<^sup>6\<^sup>4 - 1\<close> gives \<^verbatim>\<open>FLAG_ERROR_INTEGER_OVERFLOW\<close>; an argument of that form whose
  digits do not exceed \<open>2\<^sup>6\<^sup>4 - 1\<close> has its value (negated modulo \<open>2\<^sup>6\<^sup>4\<close> after a
  minus sign) stored as the entry's value, and the scan goes on at the next entry,
  provided that \<^verbatim>\<open>errno\<close> is not \<^verbatim>\<open>ERANGE\<close> when the argument is converted or the
  value is not \<open>2\<^sup>6\<^sup>4 - 1\<close>. What happens to the value \<open>2\<^sup>6\<^sup>4 - 1\<close> with \<^verbatim>\<open>ERANGE\<close>
  left in \<^verbatim>\<open>errno\<close> is not part of the claim. The last four conjuncts are the same
  for \<^verbatim>\<open>flag_parse\<close> as a whole, when the entry is the first of its name (the
  failures) or the only one (the continuation).
\<close>

theorem uint64_flag_converts_next_token:
  assumes "i < length (flags c)" and "type (flags c ! i) = FLAG_UINT64"
    and "name (flags c ! i) = nm"
  shows "flag_scan nm i c [] found =
           Failed (c\<lparr>flag_error := FLAG_ERROR_NO_VALUE, flag_error_name := Some nm\<rparr>)
         \<and> (\<not> (\<exists>ws sg ds. numeral_token arg ws sg ds) \<longrightarrow>
              (\<exists>e. flag_scan nm i c (arg # args) found =
                 Failed (c\<lparr>flag_error := FLAG_ERROR_INVALID_NUMBER,
                           flag_error_name := Some nm, errno := e\<rparr>)))
         \<and> (\<forall>ws sg ds. numeral_token arg ws sg ds \<and> ULLONG_MAX < decimal 0 ds \<longrightarrow>
              flag_scan nm i c (arg # args) found =
                Failed (c\<lparr>flag_error := FLAG_ERROR_INTEGER_OVERFLOW,
                          flag_error_name := Some nm, errno := ERANGE\<rparr>))
         \<and> (\<forall>ws sg ds. numeral_token arg ws sg ds \<and> decimal 0 ds \<le> ULLONG_MAX
                \<and> (errno c \<noteq> ERANGE \<or> numeral_value sg ds \<noteq> - 1) \<longrightarrow>
              flag_scan nm i c (arg # args) found =
                flag_scan nm (Suc i) (set_val i (As_uint64 (numeral_value sg ds)) c) args True
              \<and> val (flags (set_val i (As_uint64 (numeral_value sg ds)) c) ! i) =
                  As_uint64 (numeral_value sg ds))
         \<and> (nm \<noteq> ''-'' \<and> (\<forall>k<i. name (flags c ! k) \<noteq> nm) \<longrightarrow>
              flag_parse c [prog, CHR ''-'' # nm] =
                Some (False, c\<lparr>flag_error := FLAG_ERROR_NO_VALUE, flag_error_name := Some nm\<rparr>))
         \<and> (nm \<noteq> ''-'' \<and> (\<forall>k<i. name (flags c ! k) \<noteq> nm)
                \<and> \<not> (\<exists>ws sg ds. numeral_token arg ws sg ds) \<longrightarrow>
              (\<exists>e. flag_parse c (prog # (CHR ''-'' # nm) # arg # args) =
                 Some (False, c\<lparr>flag_error := FLAG_ERROR_INVALID_NUMBER,
                                 flag_error_name := Some nm, errno := e\<rparr>)))
         \<and> (\<forall>ws sg ds. nm \<noteq> ''-'' \<and> (\<forall>k<i. name (flags c ! k) \<noteq> nm)
                \<and> numeral_token arg ws sg ds \<and> ULLONG_MAX < decimal 0 ds \<longrightarrow>
              flag_parse c (prog # (CHR ''-'' # nm) # arg # args) =
                Some (False, c\<lparr>flag_error := FLAG_ERROR_INTEGER_OVERFLOW,
                                flag_error_name := Some nm, errno := ERANGE\<rparr>))
         \<and> (\<forall>ws sg ds. nm \<noteq> ''-''
                \<and> (\<forall>k<length (flags c). k \<noteq> i \<longrightarrow> name (flags c ! k) \<noteq> nm)
                \<and> numeral_token arg ws sg ds \<and> decimal 0 ds \<le> ULLONG_MAX
                \<and> (errno c \<noteq> ERANGE \<or> numeral_value sg ds \<noteq> - 1) \<longrightarrow>
              flag_parse c (prog # (CHR ''-'' # nm) # arg # args) =
                Some (flag_parse_loop (set_val i (As_uint64 (numeral_value sg ds)) c) args))"
proof -
  note m = assms(1) assms(3) assms(2)
  have missing: "flag_scan nm i c [] fnd =
      Failed (c\<lparr>flag_error := FLAG_ERROR_NO_VALUE, flag_error_name := Some nm\<rparr>)" for fnd
    by (rule flag_scan_uint64_missing [OF m])
  have invalid: "\<exists>e. flag_scan nm i c (arg # args) fnd =
      Failed (c\<lparr>flag_error := FLAG_ERROR_INVALID_NUMBER, flag_error_name := Some nm, errno := e\<rparr>)"
    if "\<not> (\<exists>ws sg ds. numeral_token arg ws sg ds)" for fnd
    by (rule flag_scan_uint64_invalid [OF m that])
  have overflow: "flag_scan nm i c (arg # args) fnd =
      Failed (c\<lparr>flag_error := FLAG_ERROR_INTEGER_OVERFLOW, flag_error_name := Some nm,
                errno := ERANGE\<rparr>)"
    if "numeral_token arg ws sg ds" and "ULLONG_MAX < decimal 0 ds" for ws sg ds fnd
    by (rule flag_scan_uint64_overflow [OF m that])
  have store: "flag_scan nm i c (arg # args) fnd =
      flag_scan nm (Suc i) (set_val i (As_uint64 (numeral_value sg ds)) c) args True"
    if "numeral_token arg ws sg ds" and "decimal 0 ds \<le> ULLONG_MAX"
      and "errno c \<noteq> ERANGE \<or> numeral_value sg ds \<noteq> - 1" for ws sg ds fnd
    by (rule flag_scan_uint64_store [OF m that])
  have loop: "flag_parse c (prog # (CHR ''-'' # nm) # as) =
      Some (case flag_scan nm i c as False of
              Failed c' \<Rightarrow> (False, c')
            | Scanned c' args' fnd \<Rightarrow>
                if \<not> fnd then
                  (False, c'\<lparr>flag_error := FLAG_ERROR_UNKNOWN, flag_error_name := Some nm\<rparr>)
                else flag_parse_loop c' args')"
    if "nm \<noteq> ''-''" and "\<forall>k<i. name (flags c ! k) \<noteq> nm" for as
    using that assms(1) by (simp add: flag_parse_def flag_parse_loop_first_match [of nm i])
  have c1: "flag_scan nm i c [] found =
      Failed (c\<lparr>flag_error := FLAG_ERROR_NO_VALUE, flag_error_name := Some nm\<rparr>)"
    by (rule missing)
  have c2: "\<not> (\<exists>ws sg ds. numeral_token arg ws sg ds) \<longrightarrow>
      (\<exists>e. flag_scan nm i c (arg # args) found =
         Failed (c\<lparr>flag_error := FLAG_ERROR_INVALID_NUMBER,
                   flag_error_name := Some nm, errno := e\<rparr>))"
    using invalid by blast
  have c3: "\<forall>ws sg ds. numeral_token arg ws sg ds \<and> ULLONG_MAX < decimal 0 ds \<longrightarrow>
      flag_scan nm i c (arg # args) found =
        Failed (c\<lparr>flag_error := FLAG_ERROR_INTEGER_OVERFLOW,
                  flag_error_name := Some nm, errno := ERANGE\<rparr>)"
    using overflow by blast
  have c4: "\<forall>ws sg ds. numeral_token arg ws sg ds \<and> decimal 0 ds \<le> ULLONG_MAX
        \<and> (errno c \<noteq> ERANGE \<or> numeral_value sg ds \<noteq> - 1) \<longrightarrow>
      flag_scan nm i c (arg # args) found =
        flag_scan nm (Suc i) (set_val i (As_uint64 (numeral_value sg ds)) c) args True
      \<and> val (flags (set_val i (As_uint64 (numeral_value sg ds)) c) ! i) =
          As_uint64 (numeral_value sg ds)"
  proof (intro allI impI, elim conjE)
    fix ws sg ds
    assume b: "numeral_token arg ws sg ds" "decimal 0 ds \<le> ULLONG_MAX"
      "errno c \<noteq> ERANGE \<or> numeral_value sg ds \<noteq> - 1"
    from store [OF b, of found] assms(1)
    show "flag_scan nm i c (arg # args) found =
        flag_scan nm (Suc i) (set_val i (As_uint64 (numeral_value sg ds)) c) args True
      \<and> val (flags (set_val i (As_uint64 (numeral_value sg ds)) c) ! i) =
          As_uint64 (numeral_value sg ds)"
      by simp
  qed
  have c5: "nm \<noteq> ''-'' \<and> (\<forall>k<i. name (flags c ! k) \<noteq> nm) \<longrightarrow>
      flag_parse c [prog, CHR ''-'' # nm] =
        Some (False, c\<lparr>flag_error := FLAG_ERROR_NO_VALUE, flag_error_name := Some nm\<rparr>)"
    using loop [of "[]"] missing [of False] by simp
  have c6: "nm \<noteq> ''-'' \<and> (\<forall>k<i. name (flags c ! k) \<noteq> nm)
        \<and> \<not> (\<exists>ws sg ds. numeral_token arg ws sg ds) \<longrightarrow>
      (\<exists>e. flag_parse c (prog # (CHR ''-'' # nm) # arg # args) =
         Some (False, c\<lparr>flag_error := FLAG_ERROR_INVALID_NUMBER,
                         flag_error_name := Some nm, errno := e\<rparr>))"
  proof (intro impI, elim conjE)
    assume a: "nm \<noteq> ''-''" "\<forall>k<i. name (flags c ! k) \<noteq> nm"
      and b: "\<not> (\<exists>ws sg ds. numeral_token arg ws sg ds)"
    from invalid [OF b, of False] obtain e where
      "flag_scan nm i c (arg # args) False =
         Failed (c\<lparr>flag_error := FLAG_ERROR_INVALID_NUMBER, flag_error_name := Some nm,
                   errno := e\<rparr>)" ..
    with loop [OF a, of "arg # args"]
    have "flag_parse c (prog # (CHR ''-'' # nm) # arg # args) =
         Some (False, c\<lparr>flag_error := FLAG_ERROR_INVALID_NUMBER,
                         flag_error_name := Some nm, errno := e\<rparr>)"
      by simp
    then show "\<exists>e. flag_parse c (prog # (CHR ''-'' # nm) # arg # args) =
         Some (False, c\<lparr>flag_error := FLAG_ERROR_INVALID_NUMBER,
                         flag_error_name := Some nm, errno := e\<rparr>)"
      by (rule exI)
  qed
  have c7: "\<forall>ws sg ds. nm \<noteq> ''-'' \<and> (\<forall>k<i. name (flags c ! k) \<noteq> nm)
        \<and> numeral_token arg ws sg ds \<and> ULLONG_MAX < decimal 0 ds \<longrightarrow>
      flag_parse c (prog # (CHR ''-'' # nm) # arg # args) =
        Some (False, c\<lparr>flag_error := FLAG_ERROR_INTEGER_OVERFLOW,
                        flag_error_name := Some nm, errno := ERANGE\<rparr>)"
  proof (intro allI impI, elim conjE)
    fix ws sg ds
    assume a: "nm \<noteq> ''-''" "\<forall>k<i. name (flags c ! k) \<noteq> nm"
      and b: "numeral_token arg ws sg ds" "ULLONG_MAX < decimal 0 ds"
    from loop [OF a, of "arg # args"] overflow [OF b, of False]
    show "flag_parse c (prog # (CHR ''-'' # nm) # arg # args) =
        Some (False, c\<lparr>flag_error := FLAG_ERROR_INTEGER_OVERFLOW,
                        flag_error_name := Some nm, errno := ERANGE\<rparr>)"
      by simp
  qed
  have c8: "\<forall>ws sg ds. nm \<noteq> ''-''
        \<and> (\<forall>k<length (flags c). k \<noteq> i \<longrightarrow> name (flags c ! k) \<noteq> nm)
        \<and> numeral_token arg ws sg ds \<and> decimal 0 ds \<le> ULLONG_MAX
        \<and> (errno c \<noteq> ERANGE \<or> numeral_value sg ds \<noteq> - 1) \<longrightarrow>
      flag_parse c (prog # (CHR ''-'' # nm) # arg # args) =
        Some (flag_parse_loop (set_val i (As_uint64 (numeral_value sg ds)) c) args)"
  proof (intro allI impI, elim conjE)
    fix ws sg ds
    assume a: "nm \<noteq> ''-''"
      and u: "\<forall>k<length (flags c). k \<noteq> i \<longrightarrow> name (flags c ! k) \<noteq> nm"
      and b: "numeral_token arg ws sg ds" "decimal 0 ds \<le> ULLONG_MAX"
        "errno c \<noteq> ERANGE \<or> numeral_value sg ds \<noteq> - 1"
    from u assms(1) have first: "\<forall>k<i. name (flags c ! k) \<noteq> nm" by auto
    have "flag_scan nm i c (arg # args) False =
        Scanned (set_val i (As_uint64 (numeral_value sg ds)) c) args True"
      using store [OF b, of False] u by (simp add: flag_scan_after_last_match)
    with loop [OF a first, of "arg # args"]
    show "flag_parse c (prog # (CHR ''-'' # nm) # arg # args) =
        Some (flag_parse_loop (set_val i (As_uint64 (numeral_value sg ds)) c) args)"
      by simp
  qed
  from c1 c2 c3 c4 c5 c6 c7 c8 show ?thesis by (intro conjI)
qed
theorem uint64_flag_converts_next_token_witness:
  "flag_parse example_globals [''prog'', ''-count''] =
     Some (False, example_globals\<lparr>flag_error := FLAG_ERROR_NO_VALUE,
                                  flag_error_name := Some ''count''\<rparr>)
   \<and> (\<exists>e. flag_parse example_globals [''prog'', ''-count'', ''12ab''] =
          Some (False, example_globals\<lparr>flag_error := FLAG_ERROR_INVALID_NUMBER,
                                       flag_error_name := Some ''count'', errno := e\<rparr>))
   \<and> flag_parse example_globals [''prog'', ''-count'', ''99999999999999999999''] =
     Some (False, example_globals\<lparr>flag_error := FLAG_ERROR_INTEGER_OVERFLOW,
                                  flag_error_name := Some ''count'', errno := ERANGE\<rparr>)
   \<and> flag_parse example_globals [''prog'', ''-count'', ''42''] =
     Some (True, (set_val 1 (As_uint64 42) example_globals)\<lparr>rest_argc := 0, rest_argv := []\<rparr>)"
proof -
  have a: "1 < length (flags example_globals)"
    and b: "type (flags example_globals ! 1) = FLAG_UINT64"
    and c: "name (flags example_globals ! 1) = ''count''"
    by (simp_all add: example_defs)
  note T = uint64_flag_converts_next_token [OF a b c]
  have first: "''count'' \<noteq> ''-'' \<and> (\<forall>k<1. name (flags example_globals ! k) \<noteq> ''count'')"
    by (simp add: example_defs)
  have only: "''count'' \<noteq> ''-'' \<and> (\<forall>k<length (flags example_globals). k \<noteq> 1 \<longrightarrow>
      name (flags example_globals ! k) \<noteq> ''count'')"
    by (simp add: example_defs All_less_Suc)
  have n1: "\<not> (\<exists>ws sg ds. numeral_token ''12ab'' ws sg ds)"
  proof
    assume "\<exists>ws sg ds. numeral_token ''12ab'' ws sg ds"
    then obtain ws sg ds where "numeral_token ''12ab'' ws sg ds" by blast
    then have "isdigit (last ''12ab'')" by (rule numeral_token_last_digit [THEN conjunct2])
    then show False by (simp add: isdigit_def)
  qed
  have n2: "numeral_token ''99999999999999999999'' [] [] ''99999999999999999999''"
    and v2: "ULLONG_MAX < decimal 0 ''99999999999999999999''"
    by (simp_all add: numeral_token_def isdigit_def digit_val_def ULLONG_MAX_def)
  have n3: "numeral_token ''42'' [] [] ''42''"
    and v3: "decimal 0 ''42'' \<le> ULLONG_MAX"
    and e3: "errno example_globals \<noteq> ERANGE \<or> numeral_value [] ''42'' \<noteq> - 1"
    and nv: "numeral_value [] ''42'' = 42"
    by (simp_all add: numeral_token_def isdigit_def digit_val_def ULLONG_MAX_def ERANGE_def
        example_defs numeral_value_def)
  have w1: "flag_parse example_globals [''prog'', ''-count''] =
      Some (False, example_globals\<lparr>flag_error := FLAG_ERROR_NO_VALUE,
                                   flag_error_name := Some ''count''\<rparr>)"
    using T [of False "[]" "[]" "''prog''"] first by blast
  have w2: "\<exists>e. flag_parse example_globals [''prog'', ''-count'', ''12ab''] =
      Some (False, example_globals\<lparr>flag_error := FLAG_ERROR_INVALID_NUMBER,
                                   flag_error_name := Some ''count'', errno := e\<rparr>)"
    using T [of False "''12ab''" "[]" "''prog''"] first n1 by blast
  have w3: "flag_parse example_globals [''prog'', ''-count'', ''99999999999999999999''] =
      Some (False, example_globals\<lparr>flag_error := FLAG_ERROR_INTEGER_OVERFLOW,
                                   flag_error_name := Some ''count'', errno := ERANGE\<rparr>)"
    using T [of False "''99999999999999999999''" "[]" "''prog''"] first n2 v2 by blast
  have "flag_parse example_globals [''prog'', ''-count'', ''42''] =
      Some (flag_parse_loop (set_val 1 (As_uint64 (numeral_value [] ''42'')) example_globals) [])"
    using T [of False "''42''" "[]" "''prog''"] only n3 v3 e3 by blast
  then have w4: "flag_parse example_globals [''prog'', ''-count'', ''42''] =
      Some (True, (set_val 1 (As_uint64 42) example_globals)\<lparr>rest_argc := 0, rest_argv := []\<rparr>)"
    by (simp add: nv)
  from w1 w2 w3 w4 show ?thesis by (intro conjI)
qed

text \<open>
  The condition on \<^verbatim>\<open>errno\<close> is needed: \<^verbatim>\<open>flag_parse\<close> does not clear \<^verbatim>\<open>errno\<close>
  before the conversion. A pass that fails with an overflow leaves \<^verbatim>\<open>ERANGE\<close> in it,
  and a later pass then reports the values \<^verbatim>\<open>18446744073709551615\<close> and \<^verbatim>\<open>-1\<close>,
  both \<open>2\<^sup>6\<^sup>4 - 1\<close>, as overflows.
\<close>

lemma stale_errno_reports_overflow:
  "flag_parse example_globals [''prog'', ''-count'', ''99999999999999999999''] =
     Some (False, example_globals\<lparr>flag_error := FLAG_ERROR_INTEGER_OVERFLOW,
                                  flag_error_name := Some ''count'', errno := ERANGE\<rparr>)
   \<and> flag_parse (example_globals\<lparr>flag_error := FLAG_ERROR_INTEGER_OVERFLOW,
                                  flag_error_name := Some ''count'', errno := ERANGE\<rparr>)
       [''prog'', ''-count'', ''18446744073709551615''] =
     Some (False, example_globals\<lparr>flag_error := FLAG_ERROR_INTEGER_OVERFLOW,
                                  flag_error_name := Some ''count'', errno := ERANGE\<rparr>)
   \<and> flag_parse (example_globals\<lparr>flag_error := FLAG_ERROR_INTEGER_OVERFLOW,
                                  flag_error_name := Some ''count'', errno := ERANGE\<rparr>)
       [''prog'', ''-count'', ''-1''] =
     Some (False, example_globals\<lparr>flag_error := FLAG_ERROR_INTEGER_OVERFLOW,
                                  flag_error_name := Some ''count'', errno := ERANGE\<rparr>)"
  by (simp add: example_defs flag_parse_def flag_parse_loop.simps flag_scan.simps set_val_def
      strtoull_def isspace_def isdigit_def digit_val_def ULLONG_MAX_def ERANGE_def Let_def
      unsigned_minus_1_eq_mask mask_eq_exp_minus_1)

section \<open>Flags declared twice\<close>

text \<open>A registry in which the string flag \<^verbatim>\<open>dup\<close> was declared twice.\<close>

definition duplicate_globals :: globals where
  "duplicate_globals = initial_globals\<lparr>flags :=
     [\<lparr>type = FLAG_STR, name = ''dup'', desc = ''first'', val = As_str None, def = As_str None\<rparr>,
      \<lparr>type = FLAG_STR, name = ''dup'', desc = ''second'', val = As_str None, def = As_str None\<rparr>]\<rparr>"

lemma duplicate_globals_declared:
  "flag_str ''dup'' None ''first'' initial_globals =
     Some (0, initial_globals\<lparr>flags := [hd (flags duplicate_globals)]\<rparr>)
   \<and> flag_str ''dup'' None ''second'' (initial_globals\<lparr>flags := [hd (flags duplicate_globals)]\<rparr>) =
     Some (1, duplicate_globals)"
  by (simp add: flag_str_def flag_new_def FLAGS_CAP_def set_val_def set_def_def zero_value_def
      duplicate_globals_def initial_globals_def)


text \<open>
  The body of the \<^verbatim>\<open>if\<close> in the \<^verbatim>\<open>for\<close> loop: what the token does to one entry
  that has its name, by the \<^verbatim>\<open>switch\<close> on the entry's type. It ends in
  \<^verbatim>\<open>return false\<close> (\<open>Failed\<close>), or it comes to \<^verbatim>\<open>found = true\<close> with the entry
  written and its value token, if it takes one, shifted off (\<open>Scanned\<close>).
\<close>

definition flag_match :: "string \<Rightarrow> nat \<Rightarrow> globals \<Rightarrow> string list \<Rightarrow> scan_result" where
  "flag_match flag i c args =
     (case type (flags c ! i) of
        FLAG_BOOL \<Rightarrow> Scanned (set_val i (As_bool True) c) args True
      | FLAG_STR \<Rightarrow>
          (case args of
             [] \<Rightarrow> Failed (c\<lparr>flag_error := FLAG_ERROR_NO_VALUE, flag_error_name := Some flag\<rparr>)
           | arg # args' \<Rightarrow> Scanned (set_val i (As_str (Some arg)) c) args' True)
      | FLAG_UINT64 \<Rightarrow>
          (case args of
             [] \<Rightarrow> Failed (c\<lparr>flag_error := FLAG_ERROR_NO_VALUE, flag_error_name := Some flag\<rparr>)
           | arg # args' \<Rightarrow>
               (case strtoull arg (errno c) of
                  (result, endptr, e) \<Rightarrow>
                    if endptr = 0 \<or> endptr < length arg then
                      Failed (c\<lparr>flag_error := FLAG_ERROR_INVALID_NUMBER,
                                flag_error_name := Some flag, errno := e\<rparr>)
                    else if unat result = ULLONG_MAX \<and> e = ERANGE then
                      Failed (c\<lparr>flag_error := FLAG_ERROR_INTEGER_OVERFLOW,
                                flag_error_name := Some flag, errno := e\<rparr>)
                    else Scanned (set_val i (As_uint64 result) (c\<lparr>errno := e\<rparr>)) args' True)))"

text \<open>
  This is what the scan does at every entry that has the token's name, whatever was
  found before it: after it the scan goes on at the next entry.
\<close>

lemma flag_scan_match:
  assumes "i < length (flags c)" and "name (flags c ! i) = flag"
  shows "flag_scan flag i c args found =
           (case flag_match flag i c args of
              Failed c' \<Rightarrow> Failed c'
            | Scanned c' args' _ \<Rightarrow> flag_scan flag (Suc i) c' args' True)"
  using assms
  by (simp add: flag_scan.simps [of flag i] flag_match_def
      split: Flag_Type.splits list.splits prod.splits)

lemma flag_match_Scanned:
  assumes "flag_match flag i c args = Scanned c' args' found'"
  shows "length (flags c') = length (flags c)" and "name (flags c' ! k) = name (flags c ! k)"
  using assms
  by (auto simp: flag_match_def split: Flag_Type.splits list.splits prod.splits if_splits)






section \<open>The error slot\<close>

text \<open>A scan that runs to the end of the registry writes neither field of the error slot.\<close>

lemma flag_scan_error_slot:
  "flag_error (scan_globals (flag_scan flag i c args found)) = flag_error c \<and>
   flag_error_name (scan_globals (flag_scan flag i c args found)) = flag_error_name c \<or>
   (\<exists>c'. flag_scan flag i c args found = Failed c')"
proof (induction flag i c args found rule: flag_scan.induct)
  case (1 flag i c args found)
  then show ?case
    by (subst (1 2 3) flag_scan.simps)
       (auto split: Flag_Type.splits list.splits prod.splits)
qed

lemma flag_scan_Scanned_error:
  assumes "flag_scan flag i c args found = Scanned c' args' found'"
  shows "flag_error c' = flag_error c \<and> flag_error_name c' = flag_error_name c"
  using flag_scan_error_slot [of flag i c args found] assms by simp

lemma flag_parse_loop_success_error:
  "flag_parse_loop c args = (True, c') \<Longrightarrow>
   flag_error c' = flag_error c \<and> flag_error_name c' = flag_error_name c"
proof (induction c args rule: flag_parse_loop.induct)
  case (1 c)
  then show ?case by auto
next
  case (2 c flag args)
  show ?case
  proof (cases "(case flag of [] \<Rightarrow> True | ch # _ \<Rightarrow> ch \<noteq> CHR ''-'') \<or> flag = ''--''")
    case True
    with "2.prems" show ?thesis
      by (auto simp: flag_parse_loop.simps(2) split: if_splits)
  next
    case False
    show ?thesis
    proof (cases "flag_scan (tl flag) 0 c args False")
      case (Failed c1)
      with False "2.prems" show ?thesis
        by (simp add: flag_parse_loop.simps(2))
    next
      case (Scanned c1 args1 found1)
      with False "2.prems" have f: "found1" and l: "flag_parse_loop c1 args1 = (True, c')"
        by (auto simp: flag_parse_loop.simps(2) split: if_splits)
      from False Scanned f have "flag_error c' = flag_error c1 \<and>
          flag_error_name c' = flag_error_name c1"
        by (intro "2.IH" [OF _ _ _ _ l]) auto
      with flag_scan_Scanned_error [OF Scanned] show ?thesis by simp
    qed
  qed
qed

text \<open>
  Claim C4, as stated, fails: \<^verbatim>\<open>flag_parse\<close> writes the error slot only where it
  returns \<^verbatim>\<open>false\<close>. After \<^verbatim>\<open>-unknown\<close> has failed, a pass over \<^verbatim>\<open>-verbose\<close>
  succeeds and the slot still holds \<^verbatim>\<open>FLAG_ERROR_UNKNOWN\<close> with the name
  \<^verbatim>\<open>unknown\<close>, which \<^verbatim>\<open>flag_print_error\<close> then reports.
\<close>

theorem stale_error_after_success:
  "flag_parse example_globals [''prog'', ''-unknown''] =
     Some (False, example_globals\<lparr>flag_error := FLAG_ERROR_UNKNOWN,
                                  flag_error_name := Some ''unknown''\<rparr>)
   \<and> flag_parse (example_globals\<lparr>flag_error := FLAG_ERROR_UNKNOWN,
                                  flag_error_name := Some ''unknown''\<rparr>) [''prog'', ''-verbose''] =
     Some (True, (set_val 0 (As_bool True) example_globals)
                   \<lparr>flag_error := FLAG_ERROR_UNKNOWN, flag_error_name := Some ''unknown'',
                    rest_argc := 0, rest_argv := []\<rparr>)
   \<and> flag_print_error ((set_val 0 (As_bool True) example_globals)
                   \<lparr>flag_error := FLAG_ERROR_UNKNOWN, flag_error_name := Some ''unknown'',
                    rest_argc := 0, rest_argv := []\<rparr>) =
     Some (''ERROR: -unknown: unknown flag'' @ [CHR 0x0A])"
  by (simp add: example_defs flag_parse_def flag_parse_loop.simps flag_scan.simps set_val_def
      flag_print_error_def)

text \<open>
  Claim C4, amended. A parse pass that returns success leaves the error slot as it
  was before the pass: \<^verbatim>\<open>flag_parse\<close> never clears it, and only a pass that fails
  overwrites it. So \<^verbatim>\<open>flag_print_error\<close> after a success prints what it would have
  printed before the pass.
\<close>

theorem success_keeps_error_slot:
  assumes "flag_parse c argv = Some (True, c')"
  shows "flag_error c' = flag_error c \<and> flag_error_name c' = flag_error_name c
         \<and> flag_print_error c' = flag_print_error c"
proof -
  from assms obtain prog args where "argv = prog # args"
    and "flag_parse_loop c args = (True, c')"
    by (cases argv) (auto simp: flag_parse_def)
  from flag_parse_loop_success_error [OF this(2)]
  have "flag_error c' = flag_error c" and "flag_error_name c' = flag_error_name c"
    by simp_all
  then show ?thesis
    by (simp add: flag_print_error_def cong: Flag_Error.case_cong)
qed

theorem success_keeps_error_slot_witness:
  "flag_error (snd (the (flag_parse
       (example_globals\<lparr>flag_error := FLAG_ERROR_NO_VALUE, flag_error_name := Some ''out''\<rparr>)
       [''prog'', ''-verbose'', ''file'']))) = FLAG_ERROR_NO_VALUE
   \<and> flag_error_name (snd (the (flag_parse
       (example_globals\<lparr>flag_error := FLAG_ERROR_NO_VALUE, flag_error_name := Some ''out''\<rparr>)
       [''prog'', ''-verbose'', ''file'']))) = Some ''out''"
proof -
  have h: "flag_parse
      (example_globals\<lparr>flag_error := FLAG_ERROR_NO_VALUE, flag_error_name := Some ''out''\<rparr>)
      [''prog'', ''-verbose'', ''file''] =
    Some (True, (set_val 0 (As_bool True) example_globals)
                  \<lparr>flag_error := FLAG_ERROR_NO_VALUE, flag_error_name := Some ''out'',
                   rest_argc := 1, rest_argv := [''file'']\<rparr>)"
    by (simp add: example_defs flag_parse_def flag_parse_loop.simps flag_scan.simps set_val_def)
  from success_keeps_error_slot [OF h] show ?thesis
    by (simp add: h)
qed

section \<open>What a scan leaves alone\<close>

text \<open>
  Induction over the iterations of the \<^verbatim>\<open>for\<close> loop, one case for each way through
  its body, each with the equation of that iteration.
\<close>

lemma flag_scan_steps [case_names past_end skip bool missing str invalid overflow uint64]:
  fixes flag :: string
  assumes "\<And>i c args found.
      \<lbrakk>length (flags c) \<le> i; flag_scan flag i c args found = Scanned c args found\<rbrakk>
      \<Longrightarrow> P i c args found"
    and "\<And>i c args found.
      \<lbrakk>i < length (flags c); name (flags c ! i) \<noteq> flag;
       flag_scan flag i c args found = flag_scan flag (Suc i) c args found;
       P (Suc i) c args found\<rbrakk>
      \<Longrightarrow> P i c args found"
    and "\<And>i c args found.
      \<lbrakk>i < length (flags c); name (flags c ! i) = flag; type (flags c ! i) = FLAG_BOOL;
       flag_scan flag i c args found =
         flag_scan flag (Suc i) (set_val i (As_bool True) c) args True;
       P (Suc i) (set_val i (As_bool True) c) args True\<rbrakk>
      \<Longrightarrow> P i c args found"
    and "\<And>i c found.
      \<lbrakk>i < length (flags c); name (flags c ! i) = flag; type (flags c ! i) \<noteq> FLAG_BOOL;
       flag_scan flag i c [] found =
         Failed (c\<lparr>flag_error := FLAG_ERROR_NO_VALUE, flag_error_name := Some flag\<rparr>)\<rbrakk>
      \<Longrightarrow> P i c [] found"
    and "\<And>i c arg args found.
      \<lbrakk>i < length (flags c); name (flags c ! i) = flag; type (flags c ! i) = FLAG_STR;
       flag_scan flag i c (arg # args) found =
         flag_scan flag (Suc i) (set_val i (As_str (Some arg)) c) args True;
       P (Suc i) (set_val i (As_str (Some arg)) c) args True\<rbrakk>
      \<Longrightarrow> P i c (arg # args) found"
    and "\<And>i c arg args found e.
      \<lbrakk>i < length (flags c); name (flags c ! i) = flag; type (flags c ! i) = FLAG_UINT64;
       flag_scan flag i c (arg # args) found =
         Failed (c\<lparr>flag_error := FLAG_ERROR_INVALID_NUMBER, flag_error_name := Some flag,
                   errno := e\<rparr>)\<rbrakk>
      \<Longrightarrow> P i c (arg # args) found"
    and "\<And>i c arg args found e.
      \<lbrakk>i < length (flags c); name (flags c ! i) = flag; type (flags c ! i) = FLAG_UINT64;
       flag_scan flag i c (arg # args) found =
         Failed (c\<lparr>flag_error := FLAG_ERROR_INTEGER_OVERFLOW, flag_error_name := Some flag,
                   errno := e\<rparr>)\<rbrakk>
      \<Longrightarrow> P i c (arg # args) found"
    and "\<And>i c arg args found v e.
      \<lbrakk>i < length (flags c); name (flags c ! i) = flag; type (flags c ! i) = FLAG_UINT64;
       \<And>as fnd. flag_scan flag i c (arg # as) fnd =
         flag_scan flag (Suc i) (set_val i (As_uint64 v) (c\<lparr>errno := e\<rparr>)) as True;
       P (Suc i) (set_val i (As_uint64 v) (c\<lparr>errno := e\<rparr>)) args True\<rbrakk>
      \<Longrightarrow> P i c (arg # args) found"
  shows "P i c args found"
proof -
  have "\<forall>i c args found. length (flags c) - i = n \<longrightarrow> P i c args found" for n
  proof (induction n)
    case 0
    show ?case
    proof (intro allI impI)
      fix i and c :: globals and args :: "string list" and found :: bool
      assume "length (flags c) - i = 0"
      then have le: "length (flags c) \<le> i" by simp
      then show "P i c args found" by (rule assms(1)) (simp add: flag_scan_end le)
    qed
  next
    case (Suc n)
    show ?case
    proof (intro allI impI)
      fix i and c :: globals and args :: "string list" and found :: bool
      assume len: "length (flags c) - i = Suc n"
      then have i: "i < length (flags c)" by simp
      have IH: "P (Suc i) c' args' found'" if "length (flags c') = length (flags c)"
        for c' args' found'
        using Suc.IH len that by simp
      show "P i c args found"
      proof (cases "name (flags c ! i) = flag")
        case False
        have eq: "flag_scan flag i c args found = flag_scan flag (Suc i) c args found"
          using i False by (rule flag_scan_skip_one)
        have "P (Suc i) c args found" by (rule IH) simp
        then show ?thesis by (rule assms(2) [OF i False eq])
      next
        case m: True
        show ?thesis
        proof (cases "type (flags c ! i)")
          case FLAG_BOOL
          have eq: "flag_scan flag i c args found =
              flag_scan flag (Suc i) (set_val i (As_bool True) c) args True"
            using i m FLAG_BOOL by (rule flag_scan_bool)
          have "P (Suc i) (set_val i (As_bool True) c) args True" by (rule IH) simp
          then show ?thesis by (rule assms(3) [OF i m FLAG_BOOL eq])
        next
          case FLAG_STR
          show ?thesis
          proof (cases args)
            case Nil
            have "flag_scan flag i c [] found =
                Failed (c\<lparr>flag_error := FLAG_ERROR_NO_VALUE, flag_error_name := Some flag\<rparr>)"
              using i m FLAG_STR by (rule flag_scan_str(1))
            then have "P i c [] found"
              using FLAG_STR by (intro assms(4) [OF i m]) simp_all
            with Nil show ?thesis by simp
          next
            case (Cons arg args')
            have eq: "flag_scan flag i c (arg # args') found =
                flag_scan flag (Suc i) (set_val i (As_str (Some arg)) c) args' True"
              using i m FLAG_STR by (rule flag_scan_str(2))
            have "P (Suc i) (set_val i (As_str (Some arg)) c) args' True"
              by (rule IH) simp
            then have "P i c (arg # args') found"
              by (rule assms(5) [OF i m FLAG_STR eq])
            with Cons show ?thesis by simp
          qed
        next
          case FLAG_UINT64
          show ?thesis
          proof (cases args)
            case Nil
            have "flag_scan flag i c [] found =
                Failed (c\<lparr>flag_error := FLAG_ERROR_NO_VALUE, flag_error_name := Some flag\<rparr>)"
              using i m FLAG_UINT64 by (rule flag_scan_uint64_missing)
            then have "P i c [] found"
              using FLAG_UINT64 by (intro assms(4) [OF i m]) simp_all
            with Nil show ?thesis by simp
          next
            case (Cons arg args')
            obtain result endptr e where s: "strtoull arg (errno c) = (result, endptr, e)"
              by (cases "strtoull arg (errno c)") auto
            note eq = flag_scan_uint64 [OF i m FLAG_UINT64 s]
            consider "endptr = 0 \<or> endptr < length arg"
              | "\<not> (endptr = 0 \<or> endptr < length arg)" "unat result = ULLONG_MAX \<and> e = ERANGE"
              | "\<not> (endptr = 0 \<or> endptr < length arg)" "\<not> (unat result = ULLONG_MAX \<and> e = ERANGE)"
              by blast
            then have "P i c (arg # args') found"
            proof cases
              case 1
              with eq have "flag_scan flag i c (arg # args') found =
                  Failed (c\<lparr>flag_error := FLAG_ERROR_INVALID_NUMBER, flag_error_name := Some flag,
                            errno := e\<rparr>)"
                by simp
              then show ?thesis by (rule assms(6) [OF i m FLAG_UINT64])
            next
              case 2
              with eq have "flag_scan flag i c (arg # args') found =
                  Failed (c\<lparr>flag_error := FLAG_ERROR_INTEGER_OVERFLOW, flag_error_name := Some flag,
                            errno := e\<rparr>)"
                by simp
              then show ?thesis by (rule assms(7) [OF i m FLAG_UINT64])
            next
              case 3
              with eq have eq': "flag_scan flag i c (arg # as) fnd =
                  flag_scan flag (Suc i) (set_val i (As_uint64 result) (c\<lparr>errno := e\<rparr>)) as True"
                for as fnd
                by simp
              have "P (Suc i) (set_val i (As_uint64 result) (c\<lparr>errno := e\<rparr>)) args' True"
                by (rule IH) simp
              then show ?thesis by (rule assms(8) [OF i m FLAG_UINT64 eq'])
            qed
            with Cons show ?thesis by simp
          qed
        qed
      qed
    qed
  qed
  then show ?thesis by simp
qed
lemma flag_scan_flags_length:
  "length (flags (scan_globals (flag_scan flag i c args found))) = length (flags c)"
  by (induction i c args found rule: flag_scan_steps [where flag = flag]) simp_all

text \<open>Only \<^verbatim>\<open>val\<close> is written: names, types and defaults stay.\<close>

lemma flag_scan_static:
  "name (flags (scan_globals (flag_scan flag i c args found)) ! k) = name (flags c ! k) \<and>
   type (flags (scan_globals (flag_scan flag i c args found)) ! k) = type (flags c ! k) \<and>
   def (flags (scan_globals (flag_scan flag i c args found)) ! k) = def (flags c ! k)"
  by (induction i c args found rule: flag_scan_steps [where flag = flag]) simp_all

text \<open>Entries already passed, and entries with another name, are not written.\<close>

lemma flag_scan_frame:
  "k < i \<or> name (flags c ! k) \<noteq> flag \<Longrightarrow>
   flags (scan_globals (flag_scan flag i c args found)) ! k = flags c ! k"
proof (induction i c args found rule: flag_scan_steps [where flag = flag])
  case (skip i c args found)
  then show ?case by (auto simp: less_Suc_eq)
next
  case (bool i c args found)
  then have "k \<noteq> i" by auto
  with bool show ?case by (auto simp: less_Suc_eq)
next
  case (str i c arg args found)
  then have "k \<noteq> i" by auto
  with str show ?case by (auto simp: less_Suc_eq)
next
  case (uint64 i c arg args found v e)
  then have "k \<noteq> i" by auto
  with uint64 show ?case by (auto simp: less_Suc_eq)
qed simp_all

lemma flag_scan_Failed_name:
  "flag_scan flag i c args found = Failed c' \<Longrightarrow> flag_error_name c' = Some flag"
  by (induction i c args found rule: flag_scan_steps [where flag = flag]) auto

text \<open>A scan that passes an entry with the token's name ends with \<^verbatim>\<open>found\<close> set.\<close>

lemma flag_scan_found:
  "flag_scan flag i c args found = Scanned c' args' found' \<Longrightarrow>
   found \<or> (\<exists>k\<ge>i. k < length (flags c) \<and> name (flags c ! k) = flag) \<Longrightarrow> found'"
proof (induction i c args found rule: flag_scan_steps [where flag = flag])
  case (past_end i c args found)
  then show ?case by auto
next
  case (skip i c args found)
  from skip.prems(2) skip.hyps(2) have "found \<or>
      (\<exists>k\<ge>Suc i. k < length (flags c) \<and> name (flags c ! k) = flag)"
    by (metis Suc_leI le_neq_implies_less)
  with skip show ?case by simp
qed simp_all
text \<open>
  When a scan ends in \<^verbatim>\<open>return false\<close>, the entry it stopped at is not written:
  an entry after which no entry has the token's name is as it was.
\<close>

lemma flag_scan_Failed_last:
  "flag_scan flag i c args found = Failed c' \<Longrightarrow>
   \<forall>k'. k < k' \<and> k' < length (flags c) \<longrightarrow> name (flags c ! k') \<noteq> flag \<Longrightarrow>
   flags c' ! k = flags c ! k"
proof (induction i c args found rule: flag_scan_steps [where flag = flag])
  case (bool i c args found)
  show ?case
  proof (cases "k = i")
    case True
    have "flag_scan flag (Suc i) (set_val i (As_bool True) c) args True =
        Scanned (set_val i (As_bool True) c) args True"
      using bool.prems(2) True by (intro flag_scan_no_match) auto
    with bool show ?thesis by simp
  next
    case False
    with bool show ?thesis by simp
  qed
next
  case (str i c arg args found)
  show ?case
  proof (cases "k = i")
    case True
    have "flag_scan flag (Suc i) (set_val i (As_str (Some arg)) c) args True =
        Scanned (set_val i (As_str (Some arg)) c) args True"
      using str.prems(2) True by (intro flag_scan_no_match) auto
    with str show ?thesis by simp
  next
    case False
    with str show ?thesis by simp
  qed
next
  case (uint64 i c arg args found v e)
  show ?case
  proof (cases "k = i")
    case True
    have "flag_scan flag (Suc i) (set_val i (As_uint64 v) (c\<lparr>errno := e\<rparr>)) args True =
        Scanned (set_val i (As_uint64 v) (c\<lparr>errno := e\<rparr>)) args True"
      using uint64.prems(2) True by (intro flag_scan_no_match) auto
    with uint64 show ?thesis by simp
  next
    case False
    with uint64 show ?thesis by simp
  qed
qed auto

text \<open>
  A scan that runs to the end takes its values off the front of the arguments, and
  does the same whatever follows them.
\<close>

lemma flag_scan_Scanned_prefix:
  "flag_scan flag i c args found = Scanned c' args' found' \<Longrightarrow>
   \<exists>used. args = used @ args' \<and>
     (\<forall>rest. flag_scan flag i c (used @ rest) found = Scanned c' rest found')"
proof (induction i c args found rule: flag_scan_steps [where flag = flag])
  case (past_end i c args found)
  then have "args = [] @ args' \<and>
      (\<forall>rest. flag_scan flag i c ([] @ rest) found = Scanned c' rest found')"
    by (simp add: flag_scan_end)
  then show ?case by blast
next
  case (skip i c args found)
  then obtain used where "args = used @ args'"
    and "\<forall>rest. flag_scan flag (Suc i) c (used @ rest) found = Scanned c' rest found'"
    by auto
  with skip.hyps(1,2) have "args = used @ args' \<and>
      (\<forall>rest. flag_scan flag i c (used @ rest) found = Scanned c' rest found')"
    by (simp add: flag_scan_skip_one)
  then show ?case by blast
next
  case (bool i c args found)
  then obtain used where "args = used @ args'"
    and "\<forall>rest. flag_scan flag (Suc i) (set_val i (As_bool True) c) (used @ rest) True =
           Scanned c' rest found'"
    by auto
  with bool.hyps(1-3) have "args = used @ args' \<and>
      (\<forall>rest. flag_scan flag i c (used @ rest) found = Scanned c' rest found')"
    by (simp add: flag_scan_bool)
  then show ?case by blast
next
  case (str i c arg args found)
  then obtain used where "args = used @ args'"
    and "\<forall>rest. flag_scan flag (Suc i) (set_val i (As_str (Some arg)) c) (used @ rest) True =
           Scanned c' rest found'"
    by auto
  with str.hyps(1-3) have "arg # args = (arg # used) @ args' \<and>
      (\<forall>rest. flag_scan flag i c ((arg # used) @ rest) found = Scanned c' rest found')"
    by (simp add: flag_scan_str(2))
  then show ?case by blast
next
  case (uint64 i c arg args found v e)
  then obtain used where "args = used @ args'"
    and "\<forall>rest. flag_scan flag (Suc i) (set_val i (As_uint64 v) (c\<lparr>errno := e\<rparr>))
           (used @ rest) True = Scanned c' rest found'"
    by auto
  with uint64.hyps(4) have "arg # args = (arg # used) @ args' \<and>
      (\<forall>rest. flag_scan flag i c ((arg # used) @ rest) found = Scanned c' rest found')"
    by simp
  then show ?case by blast
qed simp_all

section \<open>What a pass leaves alone\<close>

text \<open>
  The names a pass looks up in the registry: those of the tokens it consumes as flags,
  in order. Tokens taken as values, the terminator and everything after the token
  where the pass stops are not among them.
\<close>

function consumed_flags :: "globals \<Rightarrow> string list \<Rightarrow> string list" where
  "consumed_flags c [] = []"
| "consumed_flags c (flag # args) =
     (if (case flag of [] \<Rightarrow> True | ch # _ \<Rightarrow> ch \<noteq> CHR ''-'') \<or> flag = ''--'' then []
      else tl flag #
        (case flag_scan (tl flag) 0 c args False of
           Failed c' \<Rightarrow> []
         | Scanned c' args' found \<Rightarrow> if \<not> found then [] else consumed_flags c' args'))"
  by pat_completeness auto
termination
  by (relation "measure (\<lambda>(c, args). length args)")
     (auto dest: flag_scan_length simp: less_Suc_eq_le)

declare consumed_flags.simps(2) [simp del]

text \<open>
  Induction over the iterations of the \<^verbatim>\<open>while\<close> loop, one case for each way through
  its body.
\<close>

lemma flag_parse_loop_steps [case_names empty positional terminator failed unknown continue]:
  assumes "\<And>c. P c []"
    and "\<And>c flag args.
      \<lbrakk>take 1 flag \<noteq> ''-'';
       flag_parse_loop c (flag # args) =
         (True, c\<lparr>rest_argc := int (length args) + 1, rest_argv := flag # args\<rparr>);
       consumed_flags c (flag # args) = []\<rbrakk>
      \<Longrightarrow> P c (flag # args)"
    and "\<And>c args.
      \<lbrakk>flag_parse_loop c (''--'' # args) =
         (True, c\<lparr>rest_argc := int (length args), rest_argv := args\<rparr>);
       consumed_flags c (''--'' # args) = []\<rbrakk>
      \<Longrightarrow> P c (''--'' # args)"
    and "\<And>c nm args c'.
      \<lbrakk>nm \<noteq> ''-''; flag_scan nm 0 c args False = Failed c';
       flag_parse_loop c ((CHR ''-'' # nm) # args) = (False, c');
       consumed_flags c ((CHR ''-'' # nm) # args) = [nm]\<rbrakk>
      \<Longrightarrow> P c ((CHR ''-'' # nm) # args)"
    and "\<And>c nm args c' args'.
      \<lbrakk>nm \<noteq> ''-''; flag_scan nm 0 c args False = Scanned c' args' False;
       flag_parse_loop c ((CHR ''-'' # nm) # args) =
         (False, c'\<lparr>flag_error := FLAG_ERROR_UNKNOWN, flag_error_name := Some nm\<rparr>);
       consumed_flags c ((CHR ''-'' # nm) # args) = [nm]\<rbrakk>
      \<Longrightarrow> P c ((CHR ''-'' # nm) # args)"
    and "\<And>c nm args c' args'.
      \<lbrakk>nm \<noteq> ''-''; flag_scan nm 0 c args False = Scanned c' args' True;
       flag_parse_loop c ((CHR ''-'' # nm) # args) = flag_parse_loop c' args';
       consumed_flags c ((CHR ''-'' # nm) # args) = nm # consumed_flags c' args';
       P c' args'\<rbrakk>
      \<Longrightarrow> P c ((CHR ''-'' # nm) # args)"
  shows "P c args"
proof (induction c args rule: flag_parse_loop.induct)
  case (1 c)
  show ?case by (rule assms(1))
next
  case (2 c flag args)
  show ?case
  proof (cases "take 1 flag = ''-''")
    case False
    then have p: "(case flag of [] \<Rightarrow> True | ch # _ \<Rightarrow> ch \<noteq> CHR ''-'')"
      by (cases flag) auto
    from p have "flag_parse_loop c (flag # args) =
        (True, c\<lparr>rest_argc := int (length args) + 1, rest_argv := flag # args\<rparr>)"
      by (simp add: flag_parse_loop.simps(2))
    moreover from p have "consumed_flags c (flag # args) = []"
      by (simp add: consumed_flags.simps(2))
    ultimately show ?thesis by (rule assms(2) [OF False])
  next
    case True
    then obtain nm where flag: "flag = CHR ''-'' # nm"
      by (cases flag) auto
    then have np: "\<not> (case flag of [] \<Rightarrow> True | ch # _ \<Rightarrow> ch \<noteq> CHR ''-'')" by simp
    show ?thesis
    proof (cases "nm = ''-''")
      case True
      with flag have "flag_parse_loop c (''--'' # args) =
          (True, c\<lparr>rest_argc := int (length args), rest_argv := args\<rparr>)"
        and "consumed_flags c (''--'' # args) = []"
        by (simp_all add: flag_parse_loop.simps(2) consumed_flags.simps(2))
      then have "P c (''--'' # args)" by (rule assms(3))
      with flag True show ?thesis by simp
    next
      case False
      with flag have nt: "flag \<noteq> ''--''" by simp
      show ?thesis
      proof (cases "flag_scan nm 0 c args False")
        case (Failed c')
        with flag False have "flag_parse_loop c ((CHR ''-'' # nm) # args) = (False, c')"
          and "consumed_flags c ((CHR ''-'' # nm) # args) = [nm]"
          by (simp_all add: flag_parse_loop.simps(2) consumed_flags.simps(2))
        then have "P c ((CHR ''-'' # nm) # args)" by (rule assms(4) [OF False Failed])
        with flag show ?thesis by simp
      next
        case (Scanned c' args' found)
        show ?thesis
        proof (cases found)
          case f: False
          with Scanned flag False have "flag_parse_loop c ((CHR ''-'' # nm) # args) =
              (False, c'\<lparr>flag_error := FLAG_ERROR_UNKNOWN, flag_error_name := Some nm\<rparr>)"
            and "consumed_flags c ((CHR ''-'' # nm) # args) = [nm]"
            by (simp_all add: flag_parse_loop.simps(2) consumed_flags.simps(2))
          then have "P c ((CHR ''-'' # nm) # args)"
            using Scanned f by (intro assms(5) [OF False]) simp_all
          with flag show ?thesis by simp
        next
          case t: True
          with Scanned flag False have e1: "flag_parse_loop c ((CHR ''-'' # nm) # args) =
              flag_parse_loop c' args'"
            and e2: "consumed_flags c ((CHR ''-'' # nm) # args) = nm # consumed_flags c' args'"
            by (simp_all add: flag_parse_loop.simps(2) consumed_flags.simps(2))
          have s: "flag_scan nm 0 c args False = Scanned c' args' True"
            using Scanned t by simp
          have "P c' args'"
            using np nt Scanned t flag by (intro "2.IH") simp_all
          then have "P c ((CHR ''-'' # nm) # args)"
            by (rule assms(6) [OF False s e1 e2])
          with flag show ?thesis by simp
        qed
      qed
    qed
  qed
qed
lemma flag_scan_result_static:
  assumes "flag_scan flag i c args found = r"
  shows "length (flags (scan_globals r)) = length (flags c)
    \<and> name (flags (scan_globals r) ! k) = name (flags c ! k)
    \<and> type (flags (scan_globals r) ! k) = type (flags c ! k)
    \<and> def (flags (scan_globals r) ! k) = def (flags c ! k)"
  using flag_scan_flags_length [of flag i c args found]
    flag_scan_static [of flag i c args found k] assms
  by simp

lemma flag_scan_result_frame:
  assumes "flag_scan flag i c args found = r" and "k < i \<or> name (flags c ! k) \<noteq> flag"
  shows "flags (scan_globals r) ! k = flags c ! k"
  using flag_scan_frame [OF assms(2), of args found] assms(1) by simp

lemma flag_scan_not_found:
  "flag_scan flag i c args found = Scanned c' args' False \<Longrightarrow> c' = c \<and> args' = args"
proof (induction i c args found rule: flag_scan_steps [where flag = flag])
  case (bool i c args found)
  from bool.prems bool.hyps(4) have "flag_scan flag (Suc i) (set_val i (As_bool True) c) args True =
      Scanned c' args' False"
    by simp
  from flag_scan_found [OF this] show ?case by simp
next
  case (str i c arg args found)
  from str.prems str.hyps(4) have "flag_scan flag (Suc i) (set_val i (As_str (Some arg)) c) args True =
      Scanned c' args' False"
    by simp
  from flag_scan_found [OF this] show ?case by simp
next
  case (uint64 i c arg args found v e)
  from uint64.prems uint64.hyps(4) have "flag_scan flag (Suc i) (set_val i (As_uint64 v) (c\<lparr>errno := e\<rparr>)) args True =
      Scanned c' args' False"
    by simp
  from flag_scan_found [OF this] show ?case by simp
qed simp_all

text \<open>A pass writes only \<^verbatim>\<open>val\<close> fields: the registry keeps its entries' names, types and defaults.\<close>

lemma flag_parse_loop_static:
  "length (flags (snd (flag_parse_loop c args))) = length (flags c) \<and>
   name (flags (snd (flag_parse_loop c args)) ! k) = name (flags c ! k) \<and>
   type (flags (snd (flag_parse_loop c args)) ! k) = type (flags c ! k) \<and>
   def (flags (snd (flag_parse_loop c args)) ! k) = def (flags c ! k)"
proof (induction c args rule: flag_parse_loop_steps)
  case (failed c nm args c')
  from flag_scan_result_static [OF failed(2), of k] failed(3) show ?case by simp
next
  case (unknown c nm args c' args')
  from flag_scan_result_static [OF unknown(2), of k] unknown(3) show ?case by simp
next
  case (continue c nm args c' args')
  from flag_scan_result_static [OF continue(2), of k] continue(3,5) show ?case by simp
qed simp_all

text \<open>An entry whose name the pass never looks up is as it was before the pass.\<close>

lemma flag_parse_loop_frame:
  "name (flags c ! k) \<notin> set (consumed_flags c args) \<Longrightarrow>
   flags (snd (flag_parse_loop c args)) ! k = flags c ! k"
proof (induction c args rule: flag_parse_loop_steps)
  case (failed c nm args c')
  then have "name (flags c ! k) \<noteq> nm" by simp
  from flag_scan_result_frame [OF failed(2), of k] this failed(3) show ?case by simp
next
  case (unknown c nm args c' args')
  then have "name (flags c ! k) \<noteq> nm" by simp
  from flag_scan_result_frame [OF unknown(2), of k] this unknown(3) show ?case by simp
next
  case (continue c nm args c' args')
  then have n: "name (flags c ! k) \<noteq> nm"
    and m: "name (flags c ! k) \<notin> set (consumed_flags c' args')" by simp_all
  from flag_scan_result_frame [OF continue(2), of k] n
  have e: "flags c' ! k = flags c ! k" by simp
  with m continue(5) have "flags (snd (flag_parse_loop c' args')) ! k = flags c' ! k" by simp
  with e continue(3) show ?case by simp
qed simp_all

section \<open>Failure does not roll back\<close>

text \<open>
  The assignments \<^verbatim>\<open>c->flags[i].val = v\<close> that a scan executes, in order, each as
  the index and the value: one for every entry the token is applied to without an
  error, up to the end of the registry or to the \<^verbatim>\<open>return false\<close>.
\<close>

function scan_writes :: "string \<Rightarrow> nat \<Rightarrow> globals \<Rightarrow> string list \<Rightarrow> (nat \<times> Flag_Value) list" where
  "scan_writes flag i c args =
     (if i < length (flags c) then
        if name (flags c ! i) = flag then
          (case type (flags c ! i) of
             FLAG_BOOL \<Rightarrow>
               (i, As_bool True) # scan_writes flag (Suc i) (set_val i (As_bool True) c) args
           | FLAG_STR \<Rightarrow>
               (case args of
                  [] \<Rightarrow> []
                | arg # args' \<Rightarrow>
                    (i, As_str (Some arg)) #
                      scan_writes flag (Suc i) (set_val i (As_str (Some arg)) c) args')
           | FLAG_UINT64 \<Rightarrow>
               (case args of
                  [] \<Rightarrow> []
                | arg # args' \<Rightarrow>
                    (case strtoull arg (errno c) of
                       (result, endptr, e) \<Rightarrow>
                         if endptr = 0 \<or> endptr < length arg then []
                         else if unat result = ULLONG_MAX \<and> e = ERANGE then []
                         else (i, As_uint64 result) #
                                scan_writes flag (Suc i)
                                  (set_val i (As_uint64 result) (c\<lparr>errno := e\<rparr>)) args')))
        else scan_writes flag (Suc i) c args
      else [])"
  by pat_completeness auto
termination
  by (relation "measure (\<lambda>(flag, i, c, args). length (flags c) - i)")
     (auto simp: set_val_def)

declare scan_writes.simps [simp del]

text \<open>The assignments a pass executes, in order: those of the scans of its flag tokens.\<close>

function pass_writes :: "globals \<Rightarrow> string list \<Rightarrow> (nat \<times> Flag_Value) list" where
  "pass_writes c [] = []"
| "pass_writes c (flag # args) =
     (if (case flag of [] \<Rightarrow> True | ch # _ \<Rightarrow> ch \<noteq> CHR ''-'') \<or> flag = ''--'' then []
      else scan_writes (tl flag) 0 c args @
        (case flag_scan (tl flag) 0 c args False of
           Failed c' \<Rightarrow> []
         | Scanned c' args' found \<Rightarrow> if \<not> found then [] else pass_writes c' args'))"
  by pat_completeness auto
termination
  by (relation "measure (\<lambda>(c, args). length args)")
     (auto dest: flag_scan_length simp: less_Suc_eq_le)

declare pass_writes.simps(2) [simp del]

text \<open>An assignment to the \<^verbatim>\<open>val\<close> of one entry of the registry.\<close>

definition write_val :: "nat \<times> Flag_Value \<Rightarrow> Flag list \<Rightarrow> Flag list" where
  "write_val w fs = fs[fst w := (fs ! fst w)\<lparr>val := snd w\<rparr>]"

lemma flags_set_val: "flags (set_val i v c) = write_val (i, v) (flags c)"
  by (simp add: set_val_def write_val_def)

text \<open>After a list of assignments an entry holds the last value assigned to it, if any.\<close>

lemma fold_write_val_length [simp]: "length (fold write_val ws fs) = length fs"
  by (induction ws arbitrary: fs) (simp_all add: write_val_def)

lemma fold_write_val_nth:
  "k < length fs \<Longrightarrow>
   val (fold write_val ws fs ! k) =
     (case filter (\<lambda>w. fst w = k) ws of [] \<Rightarrow> val (fs ! k) | w # ws' \<Rightarrow> snd (last (w # ws')))"
proof (induction ws arbitrary: fs)
  case Nil
  then show ?case by simp
next
  case (Cons w ws)
  have len: "k < length (write_val w fs)" using Cons.prems by (simp add: write_val_def)
  have v: "val (write_val w fs ! k) = (if fst w = k then snd w else val (fs ! k))"
    using Cons.prems by (simp add: write_val_def nth_list_update)
  show ?case
    using Cons.IH [OF len] v
    by (cases "filter (\<lambda>w. fst w = k) ws") simp_all
qed

text \<open>
  The registry a scan ends with, whichever way it ends, is the registry it started
  with, with its assignments made: a scan that fails undoes none of them.
\<close>

lemma scan_writes_match:
  assumes "i < length (flags c)" and "name (flags c ! i) = flag"
  shows "scan_writes flag i c args =
           (case flag_match flag i c args of
              Failed c' \<Rightarrow> []
            | Scanned c' args' _ \<Rightarrow> (i, val (flags c' ! i)) # scan_writes flag (Suc i) c' args')"
  using assms
  by (simp add: scan_writes.simps [of flag i] flag_match_def
      split: Flag_Type.splits list.splits prod.splits)

lemma flag_match_flags:
  assumes "i < length (flags c)"
  shows "flag_match flag i c args = Failed c' \<Longrightarrow> flags c' = flags c"
    and "flag_match flag i c args = Scanned c' args' found' \<Longrightarrow>
         flags c' = write_val (i, val (flags c' ! i)) (flags c)"
  using assms
  by (auto simp: flag_match_def set_val_def write_val_def
      split: Flag_Type.splits list.splits prod.splits if_splits)

lemma flag_scan_writes:
  "flags (scan_globals (flag_scan flag i c args found)) =
     fold write_val (scan_writes flag i c args) (flags c)"
proof -
  have "\<forall>i c args found. length (flags c) - i = n \<longrightarrow>
      flags (scan_globals (flag_scan flag i c args found)) =
        fold write_val (scan_writes flag i c args) (flags c)" for n
  proof (induction n)
    case 0
    show ?case
      by (simp add: flag_scan_end scan_writes.simps [of flag])
  next
    case (Suc n)
    show ?case
    proof (intro allI impI)
      fix i and c :: globals and args :: "string list" and found :: bool
      assume len: "length (flags c) - i = Suc n"
      then have i: "i < length (flags c)" by simp
      show "flags (scan_globals (flag_scan flag i c args found)) =
          fold write_val (scan_writes flag i c args) (flags c)"
      proof (cases "name (flags c ! i) = flag")
        case False
        with i have "flag_scan flag i c args found = flag_scan flag (Suc i) c args found"
          and "scan_writes flag i c args = scan_writes flag (Suc i) c args"
          by (simp_all add: flag_scan_skip_one scan_writes.simps [of flag i])
        with Suc.IH len show ?thesis by simp
      next
        case m: True
        show ?thesis
        proof (cases "flag_match flag i c args")
          case (Failed c1)
          with flag_scan_match [OF i m, of args found] scan_writes_match [OF i m, of args]
            flag_match_flags(1) [OF i Failed]
          show ?thesis by simp
        next
          case (Scanned c1 args1 f1)
          have l1: "length (flags c1) = length (flags c)"
            by (rule flag_match_Scanned(1) [OF Scanned])
          with len have "length (flags c1) - Suc i = n" by simp
          with Suc.IH have "flags (scan_globals (flag_scan flag (Suc i) c1 args1 True)) =
              fold write_val (scan_writes flag (Suc i) c1 args1) (flags c1)"
            by blast
          with flag_scan_match [OF i m, of args found] scan_writes_match [OF i m, of args]
            flag_match_flags(2) [OF i Scanned] Scanned
          show ?thesis by simp
        qed
      qed
    qed
  qed
  then show ?thesis by simp
qed

text \<open>The same for a pass, whether it returns \<^verbatim>\<open>true\<close> or \<^verbatim>\<open>false\<close>.\<close>

lemma flag_parse_loop_writes:
  "flags (snd (flag_parse_loop c args)) = fold write_val (pass_writes c args) (flags c)"
proof (induction c args rule: flag_parse_loop_steps)
  case (empty c)
  show ?case by simp
next
  case (positional c flag args)
  then have "(case flag of [] \<Rightarrow> True | ch # _ \<Rightarrow> ch \<noteq> CHR ''-'')"
    by (cases flag) auto
  with positional show ?case by (simp add: pass_writes.simps(2))
next
  case (terminator c args)
  then show ?case by (simp add: pass_writes.simps(2))
next
  case (failed c nm args c')
  have "pass_writes c ((CHR ''-'' # nm) # args) = scan_writes nm 0 c args"
    using failed(1,2) by (simp add: pass_writes.simps(2))
  with flag_scan_writes [of nm 0 c args False] failed(2,3) show ?case by simp
next
  case (unknown c nm args c' args')
  have "pass_writes c ((CHR ''-'' # nm) # args) = scan_writes nm 0 c args"
    using unknown(1,2) by (simp add: pass_writes.simps(2))
  with flag_scan_writes [of nm 0 c args False] unknown(2,3) show ?case by simp
next
  case (continue c nm args c' args')
  have "pass_writes c ((CHR ''-'' # nm) # args) = scan_writes nm 0 c args @ pass_writes c' args'"
    using continue(1,2) by (simp add: pass_writes.simps(2))
  with flag_scan_writes [of nm 0 c args False] continue(2,3,5) show ?case by simp
qed

text \<open>A scan neither reads nor writes the leftover-arguments fields.\<close>

lemma set_val_rest:
  "set_val i v (c\<lparr>rest_argc := a, rest_argv := b\<rparr>) = (set_val i v c)\<lparr>rest_argc := a, rest_argv := b\<rparr>"
  by (simp add: set_val_def)

lemma scan_writes_rest:
  "scan_writes flag i (c\<lparr>rest_argc := a, rest_argv := b\<rparr>) args = scan_writes flag i c args"
proof (induction flag i c args rule: scan_writes.induct)
  case (1 flag i c args)
  have e: "(c\<lparr>rest_argc := a, rest_argv := b\<rparr>)\<lparr>errno := x\<rparr> =
      (c\<lparr>errno := x\<rparr>)\<lparr>rest_argc := a, rest_argv := b\<rparr>" for x
    by simp
  from 1 show ?case
    by (subst (1 2) scan_writes.simps)
       (auto simp: set_val_rest e simp del: globals.update_convs Flag_Context.update_convs
             split: Flag_Type.splits list.splits prod.splits)
qed

text \<open>
  A failing pass fails at one flag token. Up to that token it is a pass that
  succeeds: on the tokens before it alone, \<^verbatim>\<open>flag_parse\<close> returns \<^verbatim>\<open>true\<close> with the
  globals \<open>c1\<close>. The failing pass leaves every entry as in \<open>c1\<close>, but for the
  entries that have the failing token's name and are followed by another entry of
  that name.
\<close>

lemma flag_parse_loop_failure_prefix:
  "flag_parse_loop c args = (False, c') \<Longrightarrow>
   \<exists>pre nm post c1.
     args = pre @ (CHR ''-'' # nm) # post \<and> flag_parse_loop c pre = (True, c1) \<and>
     flag_error_name c' = Some nm \<and>
     flags c' = fold write_val (scan_writes nm 0 c1 post) (flags c1) \<and>
     (\<forall>k. name (flags c ! k) \<noteq> nm \<or>
          (\<forall>k'. k < k' \<and> k' < length (flags c) \<longrightarrow> name (flags c ! k') \<noteq> nm) \<longrightarrow>
        flags c' ! k = flags c1 ! k)"
proof (induction c args rule: flag_parse_loop_steps)
  case (empty c)
  then show ?case by simp
next
  case (positional c flag args)
  then show ?case by simp
next
  case (terminator c args)
  then show ?case by simp
next
  case (failed c nm args d)
  then have d: "d = c'" by simp
  have frame: "flags c' ! k = flags c ! k"
    if "name (flags c ! k) \<noteq> nm \<or>
        (\<forall>k'. k < k' \<and> k' < length (flags c) \<longrightarrow> name (flags c ! k') \<noteq> nm)" for k
    using that flag_scan_result_frame [OF failed(2), of k]
      flag_scan_Failed_last [OF failed(2), of k] d
    by auto
  have writes: "flags c' = fold write_val
      (scan_writes nm 0 (c\<lparr>rest_argc := 0, rest_argv := []\<rparr>) args)
      (flags (c\<lparr>rest_argc := 0, rest_argv := []\<rparr>))"
    using flag_scan_writes [of nm 0 c args False] failed(2) d
    by (simp add: scan_writes_rest)
  have "(CHR ''-'' # nm) # args = [] @ (CHR ''-'' # nm) # args
      \<and> flag_parse_loop c [] = (True, c\<lparr>rest_argc := 0, rest_argv := []\<rparr>)
      \<and> flag_error_name c' = Some nm
      \<and> flags c' = fold write_val
          (scan_writes nm 0 (c\<lparr>rest_argc := 0, rest_argv := []\<rparr>) args)
          (flags (c\<lparr>rest_argc := 0, rest_argv := []\<rparr>))
      \<and> (\<forall>k. name (flags c ! k) \<noteq> nm \<or>
             (\<forall>k'. k < k' \<and> k' < length (flags c) \<longrightarrow> name (flags c ! k') \<noteq> nm) \<longrightarrow>
           flags c' ! k = flags (c\<lparr>rest_argc := 0, rest_argv := []\<rparr>) ! k)"
    using frame writes flag_scan_Failed_name [OF failed(2)] d by simp
  then show ?case by blast
next
  case (unknown c nm args d args')
  from flag_scan_not_found [OF unknown(2)] have dc: "d = c" by simp
  with unknown have c': "c' = c\<lparr>flag_error := FLAG_ERROR_UNKNOWN, flag_error_name := Some nm\<rparr>"
    by simp
  have writes: "flags c' = fold write_val
      (scan_writes nm 0 (c\<lparr>rest_argc := 0, rest_argv := []\<rparr>) args)
      (flags (c\<lparr>rest_argc := 0, rest_argv := []\<rparr>))"
    using flag_scan_writes [of nm 0 c args False] unknown(2) dc c'
    by (simp add: scan_writes_rest)
  have "(CHR ''-'' # nm) # args = [] @ (CHR ''-'' # nm) # args
      \<and> flag_parse_loop c [] = (True, c\<lparr>rest_argc := 0, rest_argv := []\<rparr>)
      \<and> flag_error_name c' = Some nm
      \<and> flags c' = fold write_val
          (scan_writes nm 0 (c\<lparr>rest_argc := 0, rest_argv := []\<rparr>) args)
          (flags (c\<lparr>rest_argc := 0, rest_argv := []\<rparr>))
      \<and> (\<forall>k. name (flags c ! k) \<noteq> nm \<or>
             (\<forall>k'. k < k' \<and> k' < length (flags c) \<longrightarrow> name (flags c ! k') \<noteq> nm) \<longrightarrow>
           flags c' ! k = flags (c\<lparr>rest_argc := 0, rest_argv := []\<rparr>) ! k)"
    using writes by (simp add: c')
  then show ?case by blast
next
  case (continue c nm args d args')
  from continue(3) continue.prems have "flag_parse_loop d args' = (False, c')" by simp
  from continue(5) [OF this] obtain pre nm' post c1 where
    split: "args' = pre @ (CHR ''-'' # nm') # post"
    and pre: "flag_parse_loop d pre = (True, c1)"
    and err: "flag_error_name c' = Some nm'"
    and writes: "flags c' = fold write_val (scan_writes nm' 0 c1 post) (flags c1)"
    and frame: "\<forall>k. name (flags d ! k) \<noteq> nm' \<or>
          (\<forall>k'. k < k' \<and> k' < length (flags d) \<longrightarrow> name (flags d ! k') \<noteq> nm') \<longrightarrow>
        flags c' ! k = flags c1 ! k"
    by blast
  from flag_scan_Scanned_prefix [OF continue(2)] obtain used where
    used: "args = used @ args'"
    and any: "\<forall>rest. flag_scan nm 0 c (used @ rest) False = Scanned d rest True"
    by blast
  have static: "length (flags d) = length (flags c)" "name (flags d ! k) = name (flags c ! k)" for k
    using flag_scan_result_static [OF continue(2), of k] by simp_all
  have "flag_parse_loop c ((CHR ''-'' # nm) # used @ pre) = flag_parse_loop d pre"
    using any continue(1) by (simp add: flag_parse_loop.simps(2))
  with pre have "flag_parse_loop c (((CHR ''-'' # nm) # used @ pre)) = (True, c1)" by simp
  moreover have "(CHR ''-'' # nm) # args = ((CHR ''-'' # nm) # used @ pre) @ (CHR ''-'' # nm') # post"
    using used split by simp
  moreover have "\<forall>k. name (flags c ! k) \<noteq> nm' \<or>
          (\<forall>k'. k < k' \<and> k' < length (flags c) \<longrightarrow> name (flags c ! k') \<noteq> nm') \<longrightarrow>
        flags c' ! k = flags c1 ! k"
    using frame by (simp add: static)
  ultimately show ?case using err writes by blast
qed

text \<open>
  Claim C8, as stated, fails where a name was declared twice: a flag assigned earlier
  in the failed pass need not keep the value it had when the error token was reached.
  With \<^verbatim>\<open>dup\<close> declared twice, \<^verbatim>\<open>-dup a b\<close> assigns \<^verbatim>\<open>a\<close> to the first declaration;
  the error token, a second \<^verbatim>\<open>-dup\<close> with the single value \<^verbatim>\<open>c\<close>, assigns \<^verbatim>\<open>c\<close> to it
  and then fails at the second declaration for want of a value.
\<close>

theorem failed_pass_overwrites_duplicate:
  "flag_parse duplicate_globals [''prog'', ''-dup'', ''a'', ''b''] =
     Some (True, (set_val 1 (As_str (Some ''b'')) (set_val 0 (As_str (Some ''a'')) duplicate_globals))
                   \<lparr>rest_argc := 0, rest_argv := []\<rparr>)
   \<and> flag_parse duplicate_globals [''prog'', ''-dup'', ''a'', ''b'', ''-dup'', ''c''] =
     Some (False, (set_val 0 (As_str (Some ''c''))
                    (set_val 1 (As_str (Some ''b'')) (set_val 0 (As_str (Some ''a'')) duplicate_globals)))
                    \<lparr>flag_error := FLAG_ERROR_NO_VALUE, flag_error_name := Some ''dup''\<rparr>)
   \<and> val (flags (snd (the (flag_parse duplicate_globals [''prog'', ''-dup'', ''a'', ''b'']))) ! 0) =
       As_str (Some ''a'')
   \<and> val (flags (snd (the (flag_parse duplicate_globals
            [''prog'', ''-dup'', ''a'', ''b'', ''-dup'', ''c'']))) ! 0) = As_str (Some ''c'')"
  by (simp add: duplicate_globals_def initial_globals_def flag_parse_def flag_parse_loop.simps
      flag_scan.simps set_val_def)

text \<open>
  Claim C8, amended. When \<^verbatim>\<open>flag_parse\<close> returns failure there is no rollback: no
  assignment to a flag's value that the pass executed is undone. The registry on
  failure is the registry before the pass with every assignment of the pass made, in
  order (first conjunct), so each flag holds the value last assigned to it during the
  pass, and a flag never assigned holds the value it had before the pass (second
  conjunct); in particular every flag whose name the pass did not look up is as it
  was (fourth conjunct). The pass failed at one flag token, whose name is the recorded
  error name. On the tokens before that token alone \<^verbatim>\<open>flag_parse\<close> succeeds, and the
  registry on failure is the registry which that successful pass leaves, with the
  assignments made that the error token's own scan executed before it failed. So a
  flag assigned earlier in the pass keeps the value assigned before the error token
  was reached unless the error token's scan assigned it again, and that can happen
  only to a flag that has the error token's name and is followed in the registry by
  another entry of that name (third conjunct).
\<close>

theorem failure_keeps_assigned_values:
  assumes "flag_parse c argv = Some (False, c')"
  shows "flags c' = fold write_val (pass_writes c (tl argv)) (flags c)
         \<and> (\<forall>k<length (flags c).
               val (flags c' ! k) =
                 (case filter (\<lambda>w. fst w = k) (pass_writes c (tl argv)) of
                    [] \<Rightarrow> val (flags c ! k)
                  | w # ws \<Rightarrow> snd (last (w # ws))))
         \<and> (\<exists>prog pre nm post c1.
               argv = prog # pre @ (CHR ''-'' # nm) # post
               \<and> flag_parse c (prog # pre) = Some (True, c1)
               \<and> flag_error_name c' = Some nm
               \<and> flags c' = fold write_val (scan_writes nm 0 c1 post) (flags c1)
               \<and> (\<forall>k. name (flags c ! k) \<noteq> nm \<or>
                      (\<forall>k'. k < k' \<and> k' < length (flags c) \<longrightarrow> name (flags c ! k') \<noteq> nm) \<longrightarrow>
                    flags c' ! k = flags c1 ! k))
         \<and> (\<forall>k. name (flags c ! k) \<notin> set (consumed_flags c (tl argv)) \<longrightarrow>
                flags c' ! k = flags c ! k)"
proof -
  from assms obtain prog args where argv: "argv = prog # args"
    and loop: "flag_parse_loop c args = (False, c')"
    by (cases argv) (auto simp: flag_parse_def)
  have all: "flags c' = fold write_val (pass_writes c (tl argv)) (flags c)"
    using flag_parse_loop_writes [of c args] loop argv by simp
  have last: "\<forall>k<length (flags c).
      val (flags c' ! k) =
        (case filter (\<lambda>w. fst w = k) (pass_writes c (tl argv)) of
           [] \<Rightarrow> val (flags c ! k)
         | w # ws \<Rightarrow> snd (last (w # ws)))"
    unfolding all by (intro allI impI fold_write_val_nth)
  from flag_parse_loop_failure_prefix [OF loop] obtain pre nm post c1 where
    "args = pre @ (CHR ''-'' # nm) # post" and "flag_parse_loop c pre = (True, c1)"
    and "flag_error_name c' = Some nm"
    and "flags c' = fold write_val (scan_writes nm 0 c1 post) (flags c1)"
    and "\<forall>k. name (flags c ! k) \<noteq> nm \<or>
          (\<forall>k'. k < k' \<and> k' < length (flags c) \<longrightarrow> name (flags c ! k') \<noteq> nm) \<longrightarrow>
        flags c' ! k = flags c1 ! k"
    by blast
  then have "argv = prog # pre @ (CHR ''-'' # nm) # post
      \<and> flag_parse c (prog # pre) = Some (True, c1)
      \<and> flag_error_name c' = Some nm
      \<and> flags c' = fold write_val (scan_writes nm 0 c1 post) (flags c1)
      \<and> (\<forall>k. name (flags c ! k) \<noteq> nm \<or>
             (\<forall>k'. k < k' \<and> k' < length (flags c) \<longrightarrow> name (flags c ! k') \<noteq> nm) \<longrightarrow>
           flags c' ! k = flags c1 ! k)"
    using argv by (simp add: flag_parse_def)
  then have prefix: "\<exists>prog pre nm post c1.
      argv = prog # pre @ (CHR ''-'' # nm) # post
      \<and> flag_parse c (prog # pre) = Some (True, c1)
      \<and> flag_error_name c' = Some nm
      \<and> flags c' = fold write_val (scan_writes nm 0 c1 post) (flags c1)
      \<and> (\<forall>k. name (flags c ! k) \<noteq> nm \<or>
             (\<forall>k'. k < k' \<and> k' < length (flags c) \<longrightarrow> name (flags c ! k') \<noteq> nm) \<longrightarrow>
           flags c' ! k = flags c1 ! k)"
    by blast
  have unmatched: "\<forall>k. name (flags c ! k) \<notin> set (consumed_flags c (tl argv)) \<longrightarrow>
      flags c' ! k = flags c ! k"
    using flag_parse_loop_frame [of c _ args] loop argv by simp
  from all last prefix unmatched show ?thesis by (intro conjI)
qed

theorem failure_keeps_assigned_values_witness:
  "flag_parse duplicate_globals [''prog'', ''-dup'', ''a'', ''b'', ''-dup'', ''c''] =
     Some (False, (set_val 0 (As_str (Some ''c''))
                    (set_val 1 (As_str (Some ''b'')) (set_val 0 (As_str (Some ''a'')) duplicate_globals)))
                    \<lparr>flag_error := FLAG_ERROR_NO_VALUE, flag_error_name := Some ''dup''\<rparr>)
   \<and> pass_writes duplicate_globals [''-dup'', ''a'', ''b'', ''-dup'', ''c''] =
       [(0, As_str (Some ''a'')), (1, As_str (Some ''b'')), (0, As_str (Some ''c''))]
   \<and> flags ((set_val 0 (As_str (Some ''c''))
              (set_val 1 (As_str (Some ''b'')) (set_val 0 (As_str (Some ''a'')) duplicate_globals)))
              \<lparr>flag_error := FLAG_ERROR_NO_VALUE, flag_error_name := Some ''dup''\<rparr>) =
       fold write_val
         [(0, As_str (Some ''a'')), (1, As_str (Some ''b'')), (0, As_str (Some ''c''))]
         (flags duplicate_globals)
   \<and> val (flags ((set_val 0 (As_str (Some ''c''))
              (set_val 1 (As_str (Some ''b'')) (set_val 0 (As_str (Some ''a'')) duplicate_globals)))
              \<lparr>flag_error := FLAG_ERROR_NO_VALUE, flag_error_name := Some ''dup''\<rparr>) ! 0) =
       As_str (Some ''c'')
   \<and> val (flags ((set_val 0 (As_str (Some ''c''))
              (set_val 1 (As_str (Some ''b'')) (set_val 0 (As_str (Some ''a'')) duplicate_globals)))
              \<lparr>flag_error := FLAG_ERROR_NO_VALUE, flag_error_name := Some ''dup''\<rparr>) ! 1) =
       As_str (Some ''b'')
   \<and> (\<exists>prog pre nm post c1.
         [''prog'', ''-dup'', ''a'', ''b'', ''-dup'', ''c''] = prog # pre @ (CHR ''-'' # nm) # post
         \<and> flag_parse duplicate_globals (prog # pre) = Some (True, c1)
         \<and> flag_error_name ((set_val 0 (As_str (Some ''c''))
              (set_val 1 (As_str (Some ''b'')) (set_val 0 (As_str (Some ''a'')) duplicate_globals)))
              \<lparr>flag_error := FLAG_ERROR_NO_VALUE, flag_error_name := Some ''dup''\<rparr>) = Some nm
         \<and> flags ((set_val 0 (As_str (Some ''c''))
              (set_val 1 (As_str (Some ''b'')) (set_val 0 (As_str (Some ''a'')) duplicate_globals)))
              \<lparr>flag_error := FLAG_ERROR_NO_VALUE, flag_error_name := Some ''dup''\<rparr>) =
             fold write_val (scan_writes nm 0 c1 post) (flags c1))
   \<and> flag_parse example_globals [''prog'', ''-verbose'', ''-count'', ''abc'', ''-out'', ''f''] =
     Some (False, (set_val 0 (As_bool True) example_globals)
                    \<lparr>flag_error := FLAG_ERROR_INVALID_NUMBER, flag_error_name := Some ''count''\<rparr>)
   \<and> consumed_flags example_globals [''-verbose'', ''-count'', ''abc'', ''-out'', ''f''] =
       [''verbose'', ''count'']
   \<and> flags ((set_val 0 (As_bool True) example_globals)
        \<lparr>flag_error := FLAG_ERROR_INVALID_NUMBER, flag_error_name := Some ''count''\<rparr>) ! 2 =
       flags example_globals ! 2"
proof -
  let ?D = "(set_val 0 (As_str (Some ''c''))
      (set_val 1 (As_str (Some ''b'')) (set_val 0 (As_str (Some ''a'')) duplicate_globals)))
      \<lparr>flag_error := FLAG_ERROR_NO_VALUE, flag_error_name := Some ''dup''\<rparr>"
  let ?E = "(set_val 0 (As_bool True) example_globals)
      \<lparr>flag_error := FLAG_ERROR_INVALID_NUMBER, flag_error_name := Some ''count''\<rparr>"
  have h: "flag_parse duplicate_globals [''prog'', ''-dup'', ''a'', ''b'', ''-dup'', ''c''] =
      Some (False, ?D)"
    by (simp add: duplicate_globals_def initial_globals_def flag_parse_def flag_parse_loop.simps
        flag_scan.simps set_val_def)
  have n: "pass_writes duplicate_globals [''-dup'', ''a'', ''b'', ''-dup'', ''c''] =
      [(0, As_str (Some ''a'')), (1, As_str (Some ''b'')), (0, As_str (Some ''c''))]"
    by (simp add: duplicate_globals_def initial_globals_def pass_writes.simps scan_writes.simps
        flag_scan.simps set_val_def)
  have len: "(0::nat) < length (flags duplicate_globals)" "1 < length (flags duplicate_globals)"
    by (simp_all add: duplicate_globals_def initial_globals_def)
  note T = failure_keeps_assigned_values [OF h]
  from T have all: "flags ?D = fold write_val
      (pass_writes duplicate_globals (tl [''prog'', ''-dup'', ''a'', ''b'', ''-dup'', ''c'']))
      (flags duplicate_globals)"
    by (rule conjunct1)
  then have w3: "flags ?D = fold write_val
      [(0, As_str (Some ''a'')), (1, As_str (Some ''b'')), (0, As_str (Some ''c''))]
      (flags duplicate_globals)"
    by (simp only: n list.sel)
  from T have last: "\<forall>k<length (flags duplicate_globals).
      val (flags ?D ! k) =
        (case filter (\<lambda>w. fst w = k)
            (pass_writes duplicate_globals (tl [''prog'', ''-dup'', ''a'', ''b'', ''-dup'', ''c''])) of
           [] \<Rightarrow> val (flags duplicate_globals ! k)
         | w # ws \<Rightarrow> snd (last (w # ws)))"
    by (rule conjunct2 [THEN conjunct1])
  from last [rule_format, OF len(1)] have w4: "val (flags ?D ! 0) = As_str (Some ''c'')"
    by (simp only: n list.sel) simp
  from last [rule_format, OF len(2)] have w5: "val (flags ?D ! 1) = As_str (Some ''b'')"
    by (simp only: n list.sel) simp
  from T have "\<exists>prog pre nm post c1.
      [''prog'', ''-dup'', ''a'', ''b'', ''-dup'', ''c''] = prog # pre @ (CHR ''-'' # nm) # post
      \<and> flag_parse duplicate_globals (prog # pre) = Some (True, c1)
      \<and> flag_error_name ?D = Some nm
      \<and> flags ?D = fold write_val (scan_writes nm 0 c1 post) (flags c1)
      \<and> (\<forall>k. name (flags duplicate_globals ! k) \<noteq> nm \<or>
             (\<forall>k'. k < k' \<and> k' < length (flags duplicate_globals) \<longrightarrow>
                name (flags duplicate_globals ! k') \<noteq> nm) \<longrightarrow>
           flags ?D ! k = flags c1 ! k)"
    by (rule conjunct2 [THEN conjunct2, THEN conjunct1])
  then have w6: "\<exists>prog pre nm post c1.
      [''prog'', ''-dup'', ''a'', ''b'', ''-dup'', ''c''] = prog # pre @ (CHR ''-'' # nm) # post
      \<and> flag_parse duplicate_globals (prog # pre) = Some (True, c1)
      \<and> flag_error_name ?D = Some nm
      \<and> flags ?D = fold write_val (scan_writes nm 0 c1 post) (flags c1)"
    by blast
  have g: "flag_parse example_globals [''prog'', ''-verbose'', ''-count'', ''abc'', ''-out'', ''f''] =
      Some (False, ?E)"
    by (simp add: example_defs flag_parse_def flag_parse_loop.simps flag_scan.simps set_val_def
        strtoull_def isspace_def isdigit_def Let_def)
  have m: "consumed_flags example_globals [''-verbose'', ''-count'', ''abc'', ''-out'', ''f''] =
      [''verbose'', ''count'']"
    by (simp add: example_defs consumed_flags.simps flag_scan.simps set_val_def
        strtoull_def isspace_def isdigit_def Let_def)
  have o: "name (flags example_globals ! 2) \<notin> set
      (consumed_flags example_globals (tl [''prog'', ''-verbose'', ''-count'', ''abc'', ''-out'', ''f'']))"
    by (simp add: m) (simp add: example_defs)
  from failure_keeps_assigned_values [OF g, THEN conjunct2, THEN conjunct2, THEN conjunct2] o
  have w9: "flags ?E ! 2 = flags example_globals ! 2"
    by blast
  from h n w3 w4 w5 w6 g m w9 show ?thesis by (intro conjI)
qed

section \<open>Declaration and parsing\<close>

text \<open>
  The declaration phase of a program is a sequence of calls of \<^verbatim>\<open>flag_bool\<close>,
  \<^verbatim>\<open>flag_uint64\<close> and \<^verbatim>\<open>flag_str\<close>, each with a name, a default and a description.
\<close>

datatype flag_decl =
    Declare_bool string bool string
  | Declare_uint64 string "64 word" string
  | Declare_str string "string option" string

fun declare_flag :: "flag_decl \<Rightarrow> globals \<Rightarrow> (nat \<times> globals) option" where
  "declare_flag (Declare_bool nm d ds) c = flag_bool nm d ds c"
| "declare_flag (Declare_uint64 nm d ds) c = flag_uint64 nm d ds c"
| "declare_flag (Declare_str nm d ds) c = flag_str nm d ds c"

fun declare_all :: "flag_decl list \<Rightarrow> globals \<Rightarrow> globals option" where
  "declare_all [] c = Some c"
| "declare_all (d # ds) c =
     (case declare_flag d c of None \<Rightarrow> None | Some (_, c') \<Rightarrow> declare_all ds c')"

fun declared_name :: "flag_decl \<Rightarrow> string" where
  "declared_name (Declare_bool nm d ds) = nm"
| "declared_name (Declare_uint64 nm d ds) = nm"
| "declared_name (Declare_str nm d ds) = nm"

fun declared_default :: "flag_decl \<Rightarrow> Flag_Value" where
  "declared_default (Declare_bool nm d ds) = As_bool d"
| "declared_default (Declare_uint64 nm d ds) = As_uint64 d"
| "declared_default (Declare_str nm d ds) = As_str d"

text \<open>A declaration appends one entry, whose value and default are the default given.\<close>

lemma declare_appends:
  assumes "declare_flag d c = Some (i, c')"
  shows "i = length (flags c) \<and>
         (\<exists>f. flags c' = flags c @ [f] \<and> name f = declared_name d
               \<and> val f = declared_default d \<and> def f = declared_default d)"
  using assms
  by (cases d)
     (auto simp: flag_bool_def flag_uint64_def flag_str_def flag_new_def set_val_def set_def_def
       split: if_splits)

lemma declare_all_entries:
  "declare_all ds c = Some c' \<Longrightarrow>
   length (flags c') = length (flags c) + length ds \<and>
   (\<forall>i<length ds.
      name (flags c' ! (length (flags c) + i)) = declared_name (ds ! i)
      \<and> val (flags c' ! (length (flags c) + i)) = declared_default (ds ! i)
      \<and> def (flags c' ! (length (flags c) + i)) = declared_default (ds ! i))
   \<and> (\<forall>k<length (flags c). flags c' ! k = flags c ! k)"
proof (induction ds arbitrary: c)
  case Nil
  then show ?case by simp
next
  case (Cons d ds)
  from Cons.prems obtain i c1 where d: "declare_flag d c = Some (i, c1)"
    and rest: "declare_all ds c1 = Some c'"
    by (auto split: option.splits)
  from declare_appends [OF d] obtain f where f: "flags c1 = flags c @ [f]"
    "name f = declared_name d" "val f = declared_default d" "def f = declared_default d"
    by blast
  note IH = Cons.IH [OF rest]
  have len: "length (flags c') = length (flags c) + length (d # ds)"
    using IH f(1) by simp
  have old: "\<forall>k<length (flags c). flags c' ! k = flags c ! k"
    using IH f(1) by (simp add: nth_append)
  have new: "name (flags c' ! (length (flags c) + i)) = declared_name ((d # ds) ! i)
      \<and> val (flags c' ! (length (flags c) + i)) = declared_default ((d # ds) ! i)
      \<and> def (flags c' ! (length (flags c) + i)) = declared_default ((d # ds) ! i)"
    if "i < length (d # ds)" for i
  proof (cases i)
    case 0
    have "flags c' ! length (flags c) = flags c1 ! length (flags c)"
      using IH f(1) by simp
    with f 0 show ?thesis by simp
  next
    case (Suc j)
    with that have "j < length ds" by simp
    with IH f(1) Suc show ?thesis by simp
  qed
  from len new old show ?case by blast
qed

text \<open>
  Claim C9. The program declares its flags, starting from an empty registry, and
  then parses an argument vector. Every declared flag whose name is not that of a
  dash-prefixed token the pass consumed as a flag has, after the pass, the default
  given at its declaration as its value, whether the pass succeeds or fails.
\<close>

theorem unmatched_flag_keeps_default:
  assumes "flags c0 = []" and "declare_all ds c0 = Some c"
    and "flag_parse c argv = Some (ok, c')"
    and "i < length ds"
    and "declared_name (ds ! i) \<notin> set (consumed_flags c (tl argv))"
  shows "name (flags c' ! i) = declared_name (ds ! i)
         \<and> val (flags c' ! i) = declared_default (ds ! i)"
proof -
  from declare_all_entries [OF assms(2)] assms(1,4)
  have e: "name (flags c ! i) = declared_name (ds ! i)"
    "val (flags c ! i) = declared_default (ds ! i)"
    by auto
  from assms(3) obtain prog args where argv: "argv = prog # args"
    and loop: "flag_parse_loop c args = (ok, c')"
    by (cases argv) (auto simp: flag_parse_def)
  from assms(5) e(1) argv have "name (flags c ! i) \<notin> set (consumed_flags c args)" by simp
  from flag_parse_loop_frame [OF this] loop have "flags c' ! i = flags c ! i" by simp
  with e show ?thesis by simp
qed
definition example_declarations :: "flag_decl list" where
  "example_declarations =
     [Declare_bool ''verbose'' False ''talk more'',
      Declare_uint64 ''count'' 7 ''how many'',
      Declare_str ''out'' None ''where to'']"

lemma example_globals_declared:
  "declare_all example_declarations initial_globals = Some example_globals"
  by (simp add: example_declarations_def example_defs flag_bool_def flag_uint64_def flag_str_def
      flag_new_def FLAGS_CAP_def set_val_def set_def_def zero_value_def)

theorem unmatched_flag_keeps_default_witness:
  "flag_parse example_globals [''prog'', ''-count'', ''3'', ''file'', ''-verbose''] =
     Some (True, (set_val 1 (As_uint64 3) example_globals)
                   \<lparr>rest_argc := 2, rest_argv := [''file'', ''-verbose'']\<rparr>)
   \<and> consumed_flags example_globals [''-count'', ''3'', ''file'', ''-verbose''] = [''count'']
   \<and> val (flags ((set_val 1 (As_uint64 3) example_globals)
                   \<lparr>rest_argc := 2, rest_argv := [''file'', ''-verbose'']\<rparr>) ! 0) = As_bool False
   \<and> val (flags ((set_val 1 (As_uint64 3) example_globals)
                   \<lparr>rest_argc := 2, rest_argv := [''file'', ''-verbose'']\<rparr>) ! 2) = As_str None"
proof -
  have a: "flags initial_globals = []" by (simp add: initial_globals_def)
  have p: "flag_parse example_globals [''prog'', ''-count'', ''3'', ''file'', ''-verbose''] =
      Some (True, (set_val 1 (As_uint64 3) example_globals)
                    \<lparr>rest_argc := 2, rest_argv := [''file'', ''-verbose'']\<rparr>)"
    by (simp add: example_defs flag_parse_def flag_parse_loop.simps flag_scan.simps set_val_def
        strtoull_def isspace_def isdigit_def digit_val_def ULLONG_MAX_def ERANGE_def Let_def)
  have n: "consumed_flags example_globals [''-count'', ''3'', ''file'', ''-verbose''] = [''count'']"
    by (simp add: example_defs consumed_flags.simps flag_scan.simps set_val_def
        strtoull_def isspace_def isdigit_def digit_val_def ULLONG_MAX_def ERANGE_def Let_def)
  have i0: "0 < length example_declarations" and i2: "2 < length example_declarations"
    by (simp_all add: example_declarations_def)
  have m0: "declared_name (example_declarations ! 0) \<notin> set (consumed_flags example_globals
      (tl [''prog'', ''-count'', ''3'', ''file'', ''-verbose'']))"
    and m2: "declared_name (example_declarations ! 2) \<notin> set (consumed_flags example_globals
      (tl [''prog'', ''-count'', ''3'', ''file'', ''-verbose'']))"
    by (simp_all add: n) (simp_all add: example_declarations_def)
  have d0: "declared_default (example_declarations ! 0) = As_bool False"
    and d2: "declared_default (example_declarations ! 2) = As_str None"
    by (simp_all add: example_declarations_def)
  from unmatched_flag_keeps_default [OF a example_globals_declared p i0 m0]
    unmatched_flag_keeps_default [OF a example_globals_declared p i2 m2] d0 d2 p n
  show ?thesis by simp
qed

end
